theory Spec2Isabelle
  imports Main
begin

text \<open>
  A model of the accounting script \<open>ScriptCuentas.py\<close>: the parsing of the ledger file,
  the figures computed for each event, and the summary sheet with its running totals.
  The functions keep the names of the script. Styling of cells and column widths are
  left out; exceptions are values of a sum type.
\<close>


section \<open>Strings and integers of the host language\<close>

text \<open>
  Text is a list of 8-bit characters. ASCII text is one character per code point, which
  is what Python's \<open>str\<close> counts; the euro sign that \<open>formatAmount\<close> appends is written
  as the three bytes of its UTF-8 encoding.
\<close>

datatype error = StopIteration | IndexError | KeyError | ValueError

text \<open>
  What follows an expression that may raise: the rest runs on the value, an exception
  ends the computation.
\<close>

definition err_bind :: "error + 'a \<Rightarrow> ('a \<Rightarrow> error + 'b) \<Rightarrow> error + 'b" where
  "err_bind r f = (case r of Inl e \<Rightarrow> Inl e | Inr v \<Rightarrow> f v)"

text \<open>\<open>xs[k]\<close> for a constant \<open>k\<close> that is not negative.\<close>

definition get :: "'a list \<Rightarrow> nat \<Rightarrow> error + 'a" where
  "get xs k = (if k < length xs then Inr (xs ! k) else Inl IndexError)"

text \<open>\<open>s.split(sep)\<close> for a separator of one character: the text always has a first field.\<close>

fun py_split :: "char \<Rightarrow> string \<Rightarrow> string list" where
  "py_split sep [] = [[]]"
| "py_split sep (c # cs) =
     (if c = sep then [] # py_split sep cs
      else (case py_split sep cs of
              f # fs \<Rightarrow> (c # f) # fs
            | [] \<Rightarrow> [[c]]))"

text \<open>
  The ASCII digits, the ASCII whitespace that \<open>int\<close> skips, the value of a digit and
  of a row of digits.
\<close>

definition is_digit :: "char \<Rightarrow> bool" where
  "is_digit c = (c \<in> set ''0123456789'')"

definition py_isspace :: "char \<Rightarrow> bool" where
  "py_isspace c = (c \<in> set [CHR 0x09, CHR 0x0A, CHR 0x0B, CHR 0x0C, CHR 0x0D, CHR '' ''])"

definition digit_val :: "char \<Rightarrow> int" where
  "digit_val c = int (of_char c) - 48"

definition digits_value :: "string \<Rightarrow> int" where
  "digits_value ds = foldl (\<lambda>a c. 10 * a + digit_val c) 0 ds"

text \<open>A decimal integer literal: digits, with single underscores allowed between two digits.\<close>

fun digit_run :: "string \<Rightarrow> bool" where
  "digit_run [] = False"
| "digit_run [c] = is_digit c"
| "digit_run (c # d # r) =
     (is_digit c \<and> (if d = CHR ''_'' then digit_run r else digit_run (d # r)))"

text \<open>
  The most digits \<open>int\<close> converts: the interpreter's default value of
  \<open>sys.int_max_str_digits\<close>.
\<close>

definition int_max_str_digits :: nat where
  "int_max_str_digits = 4300"

text \<open>
  \<open>int(s)\<close> on ASCII text: whitespace around the literal is skipped, one sign may come
  right before the digits, and a literal of more digits than the limit, leading zeros
  counted and underscores not, is refused; every refusal raises \<open>ValueError\<close>. Outside
  ASCII the library also takes the whitespace and the decimal digits of Unicode, which
  this model rejects.
\<close>

definition py_int :: "string \<Rightarrow> error + int" where
  "py_int s =
     (let t = dropWhile py_isspace s;
          neg = (case t of c # r \<Rightarrow> c = CHR ''-'' | [] \<Rightarrow> False);
          u = (case t of c # r \<Rightarrow> if c = CHR ''+'' \<or> c = CHR ''-'' then r else t | [] \<Rightarrow> []);
          body = takeWhile (\<lambda>c. \<not> py_isspace c) u;
          trail = dropWhile (\<lambda>c. \<not> py_isspace c) u
      in if digit_run body \<and> list_all py_isspace trail
            \<and> length (filter is_digit body) \<le> int_max_str_digits
         then Inr ((if neg then - 1 else 1) * digits_value (filter is_digit body))
         else Inl ValueError)"

text \<open>\<open>str(n)\<close> of an integer.\<close>

fun digits_of :: "nat \<Rightarrow> string" where
  "digits_of n =
     (if n < 10 then [''0123456789'' ! n]
      else digits_of (n div 10) @ [''0123456789'' ! (n mod 10)])"

definition py_str :: "int \<Rightarrow> string" where
  "py_str n = (if n < 0 then CHR ''-'' # digits_of (nat (- n)) else digits_of (nat n))"

section \<open>Data model\<close>

text \<open>
  A transaction is the dictionary built by \<open>parseTransactions\<close>, one field per key.
  The amount is an integer count of cents (Python's unbounded \<open>int\<close>). The date is the
  value computed by the \<open>datetime\<close> library; its type is left open.
\<close>

record 'd transaction =
  movement :: string
  date :: 'd
  info :: string
  amount :: int
  name :: string
  event :: string
  concept :: string
  advance :: bool
  origin :: string
  comment :: string

text \<open>The dictionary returned by \<open>calulcateGross\<close>.\<close>

record gross =
  grossLoss :: int
  grossProfit :: int
  grossBalance :: int

text \<open>
  The dictionary returned by \<open>calculateEvent\<close>. An entry of \<open>netLossConcepts\<close> is the
  pair of the values stored under the keys \<open>'name'\<close> and \<open>'amount'\<close>.
\<close>

record 'd event_balance =
  transactionsProfit :: "'d transaction list"
  transactionsLoss :: "'d transaction list"
  caixaGross :: gross
  paypalGross :: gross
  totalGrossLoss :: int
  totalGrossProfit :: int
  totalGrossBalance :: int
  netLossConcepts :: "(string \<times> int) list"
  netLossTotal :: int

section \<open>Parsing and formatting methods\<close>

definition euro :: string where
  "euro = [CHR 0xE2, CHR 0x82, CHR 0xAC]"

text \<open>\<open>amountStr[:-2] + ',' + amountStr[-2:] + ' \<euro>'\<close>: the slices stop at the ends of the text.\<close>

definition formatAmount :: "int \<Rightarrow> string" where
  "formatAmount amt =
     (if amt = 0 then ''0,00''
      else let amountStr = py_str amt
           in take (length amountStr - 2) amountStr @ '','' @
              drop (length amountStr - 2) amountStr @ '' '' @ euro)"

text \<open>\<open>s.replace(',', '').replace('.', '')\<close>.\<close>

definition strip_separators :: "string \<Rightarrow> string" where
  "strip_separators s = filter (\<lambda>c. c \<noteq> CHR ''.'') (filter (\<lambda>c. c \<noteq> CHR '','') s)"

definition parseAmount :: "string \<Rightarrow> error + int" where
  "parseAmount a =
     (case a of
        [] \<Rightarrow> Inl IndexError
      | c # r \<Rightarrow>
          if c = CHR ''-''
          then err_bind (py_int (strip_separators r)) (\<lambda>v. Inr (- 1 * v))
          else py_int (strip_separators a))"

definition parseAdvance :: "string \<Rightarrow> bool" where
  "parseAdvance a = (a = ''Y'')"

text \<open>
  The body of the loop of \<open>parseTransactions\<close> up to the dictionary: the values are
  computed in the order of the dictionary display, so the first failure is the one
  raised. \<open>parseDate\<close> is the library's \<open>strptime\<close> and \<open>timestamp\<close>; it is a
  parameter here, returning the date or the error it raises.
\<close>

definition parseLine :: "(string \<Rightarrow> error + 'd) \<Rightarrow> string \<Rightarrow> error + 'd transaction" where
  "parseLine parseDate line =
     (let dataArray = py_split CHR '';'' (butlast line) in
      err_bind (get dataArray 0) (\<lambda>f0.
      err_bind (get dataArray 1) (\<lambda>f1.
      err_bind (parseDate f1) (\<lambda>d.
      err_bind (get dataArray 2) (\<lambda>f2.
      err_bind (get dataArray 3) (\<lambda>f3.
      err_bind (parseAmount f3) (\<lambda>a.
      err_bind (get dataArray 4) (\<lambda>f4.
      err_bind (get dataArray 5) (\<lambda>f5.
      err_bind (get dataArray 6) (\<lambda>f6.
      err_bind (get dataArray 7) (\<lambda>f7.
      err_bind (get dataArray 8) (\<lambda>f8.
      err_bind (get dataArray 9) (\<lambda>f9.
        Inr \<lparr>movement = f0, date = d, info = f2, amount = a, name = f4, event = f5,
             concept = f6, advance = parseAdvance f7, origin = f8, comment = f9\<rparr>)))))))))))))"

text \<open>The loop over the lines left, with the two lists built so far.\<close>

fun parse_loop ::
  "(string \<Rightarrow> error + 'd) \<Rightarrow> 'd transaction list \<times> string list \<Rightarrow> string list
     \<Rightarrow> error + ('d transaction list \<times> string list)" where
  "parse_loop parseDate (transactions, eventNames) [] = Inr (transactions, eventNames)"
| "parse_loop parseDate (transactions, eventNames) (line # rest) =
     (case parseLine parseDate line of
        Inl e \<Rightarrow> Inl e
      | Inr t \<Rightarrow>
          parse_loop parseDate
            (transactions @ [t],
             if event t \<notin> set eventNames then eventNames @ [event t] else eventNames)
            rest)"

text \<open>
  The input file is the list of the lines its iterator yields, each with its newline
  when it has one. \<open>next\<close> on a file with no line left raises \<open>StopIteration\<close>.
\<close>

definition parseTransactions ::
  "(string \<Rightarrow> error + 'd) \<Rightarrow> string list \<Rightarrow> error + ('d transaction list \<times> string list)" where
  "parseTransactions parseDate inputFile =
     (case inputFile of
        [] \<Rightarrow> Inl StopIteration
      | [l1] \<Rightarrow> Inl StopIteration
      | l1 # l2 # rest \<Rightarrow> parse_loop parseDate ([], []) rest)"

section \<open>Calculating methods\<close>

text \<open>\<open>functools.reduce\<close> without an initial value, on a list that is not empty.\<close>

fun reduce :: "('a \<Rightarrow> 'a \<Rightarrow> 'a) \<Rightarrow> 'a list \<Rightarrow> 'a" where
  "reduce f (x # xs) = foldl f x xs"

definition sumAmounts :: "'d transaction list \<Rightarrow> int" where
  "sumAmounts transactions =
     (if length transactions > 0
      then reduce (\<lambda>x y. x + y) (map amount transactions)
      else 0)"

definition calulcateGross ::
  "'d transaction list \<Rightarrow> 'd transaction list \<Rightarrow> string \<Rightarrow> gross" where
  "calulcateGross transactionsEventLoss transactionsEventProfit orig =
     (let transactionsLoss = filter (\<lambda>t. origin t = orig) transactionsEventLoss;
          transactionsProfit = filter (\<lambda>t. origin t = orig) transactionsEventProfit;
          gLoss = sumAmounts transactionsLoss;
          gProfit = sumAmounts transactionsProfit;
          gBalance = gLoss + gProfit
      in \<lparr>grossLoss = gLoss, grossProfit = gProfit, grossBalance = gBalance\<rparr>)"

text \<open>The loop of \<open>getEventConceptNames\<close>, with the list built so far as accumulator.\<close>

fun conceptNames_loop :: "string list \<Rightarrow> 'd transaction list \<Rightarrow> string list" where
  "conceptNames_loop conceptNames [] = conceptNames"
| "conceptNames_loop conceptNames (t # ts) =
     (if concept t \<notin> set conceptNames
      then conceptNames_loop (conceptNames @ [concept t]) ts
      else conceptNames_loop conceptNames ts)"

definition getEventConceptNames :: "'d transaction list \<Rightarrow> string list" where
  "getEventConceptNames transactions = conceptNames_loop [] transactions"

text \<open>The loop of \<open>calculateEventLossConcepts\<close>, over the concept names left.\<close>

fun lossConcepts_loop ::
  "'d transaction list \<Rightarrow> (string \<times> int) list \<times> int \<Rightarrow> string list \<Rightarrow> (string \<times> int) list \<times> int" where
  "lossConcepts_loop txLoss (concepts, tot) [] = (concepts, tot)"
| "lossConcepts_loop txLoss (concepts, tot) (conceptName # rest) =
     (let transactionsLossConcept =
            filter (\<lambda>t. concept t = conceptName \<and> \<not> advance t) txLoss;
          amt = sumAmounts transactionsLossConcept
      in lossConcepts_loop txLoss (concepts @ [(conceptName, amt)], tot + amt) rest)"

definition calculateEventLossConcepts ::
  "string list \<Rightarrow> 'd transaction list \<Rightarrow> (string \<times> int) list \<times> int" where
  "calculateEventLossConcepts conceptNames txLoss =
     lossConcepts_loop txLoss ([], 0) conceptNames"

definition calculateEvent :: "string \<Rightarrow> 'd transaction list \<Rightarrow> 'd event_balance" where
  "calculateEvent eventName transactions =
     (let transactionsEvent = filter (\<lambda>t. event t = eventName) transactions;
          transactionsEventLoss = filter (\<lambda>t. amount t < 0) transactionsEvent;
          transactionsEventProfit = filter (\<lambda>t. amount t > 0) transactionsEvent;
          caixa = calulcateGross transactionsEventLoss transactionsEventProfit ''CAIXA'';
          paypal = calulcateGross transactionsEventLoss transactionsEventProfit ''PAYPAL'';
          gLoss = grossLoss caixa + grossLoss paypal;
          gProfit = grossProfit caixa + grossProfit paypal;
          gBalance = gProfit + gLoss;
          conceptNames = getEventConceptNames transactionsEventLoss;
          (concepts, tot) = calculateEventLossConcepts conceptNames transactionsEventLoss
      in \<lparr>transactionsProfit = transactionsEventProfit,
          transactionsLoss = transactionsEventLoss,
          caixaGross = caixa,
          paypalGross = paypal,
          totalGrossLoss = gLoss,
          totalGrossProfit = gProfit,
          totalGrossBalance = gBalance,
          netLossConcepts = concepts,
          netLossTotal = tot\<rparr>)"

text \<open>
  The loop of the main program that fills the dictionary \<open>balances\<close>, one entry per
  event name.
\<close>

definition calculateBalances ::
  "string list \<Rightarrow> 'd transaction list \<Rightarrow> (string \<Rightarrow> 'd event_balance option)" where
  "calculateBalances eventNames transactions =
     foldl (\<lambda>balances eventName. balances(eventName \<mapsto> calculateEvent eventName transactions))
       Map.empty eventNames"

section \<open>Output methods\<close>

text \<open>
  A sheet maps the name of a cell, a column letter followed by the row number, to the
  text written there. \<open>cell col i\<close> is \<open>col + str(i)\<close>.
\<close>

type_synonym sheet = "string \<Rightarrow> string option"

definition cell :: "char \<Rightarrow> nat \<Rightarrow> string" where
  "cell col i = col # py_str (int i)"

text \<open>
  The local variables of \<open>writeEvents\<close> together with the sheet it writes to: the row
  counter \<open>i\<close>, the running totals \<open>totalCaixa\<close>, \<open>totalPaypal\<close> and \<open>total\<close>.
\<close>

record summary =
  row :: nat
  totalCaixa :: int
  totalPaypal :: int
  grandTotal :: int
  sheet :: sheet

text \<open>
  The body shared by the three loops of \<open>writeEvents\<close>: the row of one event and the
  update of the running totals. An event name missing from \<open>balances\<close> raises
  \<open>KeyError\<close>.
\<close>

definition write_event_row ::
  "(string \<Rightarrow> 'd event_balance option) \<Rightarrow> string \<Rightarrow> summary \<Rightarrow> error + summary" where
  "write_event_row balances eventName st =
     (case balances eventName of
        None \<Rightarrow> Inl KeyError
      | Some b \<Rightarrow>
          Inr \<lparr>row = row st + 1,
               totalCaixa = totalCaixa st + grossBalance (caixaGross b),
               totalPaypal = totalPaypal st + grossBalance (paypalGross b),
               grandTotal = grandTotal st + totalGrossBalance b,
               sheet = (sheet st)
                 (cell CHR ''A'' (row st) \<mapsto> eventName,
                  cell CHR ''B'' (row st) \<mapsto> formatAmount (grossBalance (caixaGross b)),
                  cell CHR ''C'' (row st) \<mapsto> formatAmount (grossBalance (paypalGross b)),
                  cell CHR ''D'' (row st) \<mapsto> formatAmount (totalGrossBalance b))\<rparr>)"

text \<open>
  One loop over the event names; the three loops differ in the condition on the event
  name only.
\<close>

fun event_rows ::
  "(string \<Rightarrow> bool) \<Rightarrow> (string \<Rightarrow> 'd event_balance option) \<Rightarrow> string list \<Rightarrow> summary
     \<Rightarrow> error + summary" where
  "event_rows selected balances [] st = Inr st"
| "event_rows selected balances (eventName # rest) st =
     (if selected eventName
      then err_bind (write_event_row balances eventName st) (event_rows selected balances rest)
      else event_rows selected balances rest st)"

text \<open>
  \<open>i += 2\<close>, the label of a section in column A, \<open>i += 1\<close>.
\<close>

definition header_row :: "string \<Rightarrow> summary \<Rightarrow> summary" where
  "header_row label st =
     st\<lparr>row := row st + 3,
        sheet := (sheet st)(cell CHR ''A'' (row st + 2) \<mapsto> label)\<rparr>"

text \<open>
  \<open>i += 2\<close>, then a label in column A and the three running totals in columns B to D.
\<close>

definition totals_row :: "string \<Rightarrow> summary \<Rightarrow> summary" where
  "totals_row label st =
     st\<lparr>row := row st + 2,
        sheet := (sheet st)
          (cell CHR ''A'' (row st + 2) \<mapsto> label,
           cell CHR ''B'' (row st + 2) \<mapsto> formatAmount (totalCaixa st),
           cell CHR ''C'' (row st + 2) \<mapsto> formatAmount (totalPaypal st),
           cell CHR ''D'' (row st + 2) \<mapsto> formatAmount (grandTotal st))\<rparr>"

text \<open>
  The rows after the net total: \<open>i += 4\<close>, the channel names, then the four rows of the
  liquidity section, one row down each. The four balances typed at the console are
  parameters.
\<close>

definition liquidity_rows :: "int \<Rightarrow> int \<Rightarrow> int \<Rightarrow> int \<Rightarrow> summary \<Rightarrow> summary" where
  "liquidity_rows initialBank finalBank initialPaypal finalPaypal st =
     st\<lparr>row := row st + 8,
        sheet := (sheet st)
          (cell CHR ''B'' (row st + 4) \<mapsto> ''Caixa'',
           cell CHR ''C'' (row st + 4) \<mapsto> ''Paypal'',
           cell CHR ''D'' (row st + 4) \<mapsto> ''Total'',
           cell CHR ''A'' (row st + 5) \<mapsto> ''Initial liquidity'',
           cell CHR ''B'' (row st + 5) \<mapsto> formatAmount initialBank,
           cell CHR ''C'' (row st + 5) \<mapsto> formatAmount initialPaypal,
           cell CHR ''D'' (row st + 5) \<mapsto> formatAmount (initialPaypal + initialBank),
           cell CHR ''A'' (row st + 6) \<mapsto> ''Final liquidity'',
           cell CHR ''B'' (row st + 6) \<mapsto> formatAmount finalBank,
           cell CHR ''C'' (row st + 6) \<mapsto> formatAmount finalPaypal,
           cell CHR ''D'' (row st + 6) \<mapsto> formatAmount (finalPaypal + finalBank),
           cell CHR ''A'' (row st + 7) \<mapsto> ''Theoretical difference'',
           cell CHR ''B'' (row st + 7) \<mapsto> formatAmount (finalBank - initialBank),
           cell CHR ''C'' (row st + 7) \<mapsto> formatAmount (finalPaypal - initialPaypal),
           cell CHR ''D'' (row st + 7) \<mapsto>
             formatAmount (finalPaypal + finalBank - initialBank - initialPaypal),
           cell CHR ''A'' (row st + 8) \<mapsto> ''Real difference'',
           cell CHR ''B'' (row st + 8) \<mapsto> formatAmount (totalCaixa st),
           cell CHR ''C'' (row st + 8) \<mapsto> formatAmount (totalPaypal st),
           cell CHR ''D'' (row st + 8) \<mapsto> formatAmount (grandTotal st))\<rparr>"

text \<open>
  \<open>writeEvents\<close>: the header row, the ordinary events from row 2 on, the grants, the
  gross total, the taxes, the net total, the liquidity section. The result is the sheet
  after all writes, or the exception raised.
\<close>

definition writeEvents ::
  "string list \<Rightarrow> (string \<Rightarrow> 'd event_balance option) \<Rightarrow> sheet \<Rightarrow> string list \<Rightarrow> string list
     \<Rightarrow> int \<Rightarrow> int \<Rightarrow> int \<Rightarrow> int \<Rightarrow> error + sheet" where
  "writeEvents eventNames balances sheet0 taxNames grantNames
       initialBank finalBank initialPaypal finalPaypal =
     (let st0 = \<lparr>row = 2, totalCaixa = 0, totalPaypal = 0, grandTotal = 0,
                 sheet = sheet0(''A1'' \<mapsto> ''Events'', ''B1'' \<mapsto> ''Caixa'',
                                ''C1'' \<mapsto> ''Paypal'', ''D1'' \<mapsto> ''Total'')\<rparr>
      in err_bind (event_rows (\<lambda>e. e \<notin> set taxNames \<and> e \<notin> set grantNames)
                     balances eventNames st0) (\<lambda>st1.
         err_bind (event_rows (\<lambda>e. e \<in> set grantNames)
                     balances eventNames (header_row ''Grants'' st1)) (\<lambda>st2.
         err_bind (event_rows (\<lambda>e. e \<in> set taxNames)
                     balances eventNames
                     (header_row ''Taxes'' (totals_row ''Gross Total'' st2))) (\<lambda>st3.
         Inr (sheet (liquidity_rows initialBank finalBank initialPaypal finalPaypal
                       (totals_row ''Net Total'' st3)))))))"

section \<open>Notions used to state the properties\<close>

text \<open>The position of the first occurrence of an element in a list.\<close>

fun first_index :: "'a list \<Rightarrow> 'a \<Rightarrow> nat" where
  "first_index [] a = 0"
| "first_index (x # xs) a = (if x = a then 0 else Suc (first_index xs a))"

text \<open>
  Going through a list of keys and appending each key that is not yet in the list built
  so far: the shape shared by the loops that collect event names and concept names.
\<close>

fun uniq_loop :: "'a list \<Rightarrow> 'a list \<Rightarrow> 'a list" where
  "uniq_loop acc [] = acc"
| "uniq_loop acc (k # ks) = (if k \<notin> set acc then uniq_loop (acc @ [k]) ks else uniq_loop acc ks)"

text \<open>
  The two sides of the balance over all events: the sum over a list of event names of the
  total gross balance of each, the sum of the amounts that are not zero, and the sum of
  the amounts of the transactions of the two channels.
\<close>

definition sumEventBalances :: "string list \<Rightarrow> 'd transaction list \<Rightarrow> int" where
  "sumEventBalances eventNames transactions =
     sum_list (map (\<lambda>e. totalGrossBalance (calculateEvent e transactions)) eventNames)"

definition sumNonzeroAmounts :: "'d transaction list \<Rightarrow> int" where
  "sumNonzeroAmounts transactions =
     sum_list (map amount (filter (\<lambda>t. amount t \<noteq> 0) transactions))"

definition sumChannelAmounts :: "'d transaction list \<Rightarrow> int" where
  "sumChannelAmounts transactions =
     sum_list (map amount
       (filter (\<lambda>t. origin t = ''CAIXA'' \<or> origin t = ''PAYPAL'') transactions))"

text \<open>The characters that can occur in a text accepted by \<open>int\<close>, and the ASCII range.\<close>

definition plain_char :: "char \<Rightarrow> bool" where
  "plain_char c = (is_digit c \<or> c = CHR ''+'' \<or> c = CHR ''-'' \<or> c = CHR ''_'' \<or> py_isspace c)"

definition is_ascii :: "char \<Rightarrow> bool" where
  "is_ascii c = (of_char c < (128::nat))"

text \<open>
  The figure of an event shown in a column of the summary (B: CAIXA balance, C: PAYPAL
  balance, D: total balance), the text of a cell of an event row, and the sum of a column
  over a list of events.
\<close>

definition balance_in :: "char \<Rightarrow> (string \<Rightarrow> 'd event_balance option) \<Rightarrow> string \<Rightarrow> int" where
  "balance_in col balances e =
     (if col = CHR ''B'' then grossBalance (caixaGross (the (balances e)))
      else if col = CHR ''C'' then grossBalance (paypalGross (the (balances e)))
      else totalGrossBalance (the (balances e)))"

definition row_text :: "char \<Rightarrow> (string \<Rightarrow> 'd event_balance option) \<Rightarrow> string \<Rightarrow> string" where
  "row_text col balances e =
     (if col = CHR ''A'' then e else formatAmount (balance_in col balances e))"

definition sum_in :: "char \<Rightarrow> (string \<Rightarrow> 'd event_balance option) \<Rightarrow> string list \<Rightarrow> int" where
  "sum_in col balances es = sum_list (map (balance_in col balances) es)"

text \<open>
  The event names taken by each of the three loops, in the order of the event list, and
  the rows of the two checkpoints.
\<close>

definition ordinary_events :: "string list \<Rightarrow> string list \<Rightarrow> string list \<Rightarrow> string list" where
  "ordinary_events taxNames grantNames eventNames =
     filter (\<lambda>e. e \<notin> set taxNames \<and> e \<notin> set grantNames) eventNames"

definition grant_events :: "string list \<Rightarrow> string list \<Rightarrow> string list" where
  "grant_events grantNames eventNames = filter (\<lambda>e. e \<in> set grantNames) eventNames"

definition tax_events :: "string list \<Rightarrow> string list \<Rightarrow> string list" where
  "tax_events taxNames eventNames = filter (\<lambda>e. e \<in> set taxNames) eventNames"

definition gross_total_row :: "string list \<Rightarrow> string list \<Rightarrow> string list \<Rightarrow> nat" where
  "gross_total_row taxNames grantNames eventNames =
     7 + length (ordinary_events taxNames grantNames eventNames)
       + length (grant_events grantNames eventNames)"

definition net_total_row :: "string list \<Rightarrow> string list \<Rightarrow> string list \<Rightarrow> nat" where
  "net_total_row taxNames grantNames eventNames =
     gross_total_row taxNames grantNames eventNames + 5 + length (tax_events taxNames eventNames)"

text \<open>
  How many of the loops before the gross total, and how many of all three loops, take an
  event name.
\<close>

definition times_in_gross :: "string list \<Rightarrow> string list \<Rightarrow> string \<Rightarrow> int" where
  "times_in_gross taxNames grantNames e =
     (if e \<notin> set taxNames \<and> e \<notin> set grantNames then 1 else 0)
     + (if e \<in> set grantNames then 1 else 0)"

definition times_listed :: "string list \<Rightarrow> string list \<Rightarrow> string \<Rightarrow> int" where
  "times_listed taxNames grantNames e =
     (if e \<notin> set taxNames \<and> e \<notin> set grantNames then 1 else 0)
     + (if e \<in> set grantNames then 1 else 0)
     + (if e \<in> set taxNames then 1 else 0)"

text \<open>
  What one loop over the event names leaves behind: the rows of the events taken, from
  the row counter on, the totals increased by their figures, every other cell as it was.
\<close>

definition rows_added ::
  "(string \<Rightarrow> 'd event_balance option) \<Rightarrow> string list \<Rightarrow> summary \<Rightarrow> summary \<Rightarrow> bool" where
  "rows_added balances es st st' =
     (row st' = row st + length es
      \<and> totalCaixa st' = totalCaixa st + sum_in CHR ''B'' balances es
      \<and> totalPaypal st' = totalPaypal st + sum_in CHR ''C'' balances es
      \<and> grandTotal st' = grandTotal st + sum_in CHR ''D'' balances es
      \<and> (\<forall>c r. sheet st' (cell c r) =
            (if row st \<le> r \<and> r < row st + length es \<and> c \<in> set ''ABCD''
             then Some (row_text c balances (es ! (r - row st)))
             else sheet st (cell c r))))"

text \<open>
  The text found in a cell of the sheet returned, if a sheet is returned.
\<close>

definition written :: "error + sheet \<Rightarrow> string \<Rightarrow> string option" where
  "written result key = (case result of Inl e \<Rightarrow> None | Inr sh \<Rightarrow> sh key)"

section \<open>Sample data\<close>

text \<open>A small ledger for the examples.\<close>

definition sample_tx :: "string \<Rightarrow> int \<Rightarrow> string \<Rightarrow> string \<Rightarrow> bool \<Rightarrow> nat transaction" where
  "sample_tx ev amt orig con adv =
     \<lparr>movement = ''m'', date = 0, info = ''i'', amount = amt, name = ''n'', event = ev,
      concept = con, advance = adv, origin = orig, comment = ''c''\<rparr>"

definition sample_ledger :: "nat transaction list" where
  "sample_ledger =
     [sample_tx ''Gala'' (- 1000) ''CAIXA'' ''food'' False,
      sample_tx ''Gala'' 500 ''PAYPAL'' ''tickets'' False,
      sample_tx ''Trip'' (- 250) ''PAYPAL'' ''bus'' False,
      sample_tx ''Gala'' 0 ''CAIXA'' ''food'' False,
      sample_tx ''Gala'' (- 300) ''CAIXA'' ''music'' True,
      sample_tx ''Gala'' (- 200) ''PAYPAL'' ''food'' False,
      sample_tx ''Gala'' (- 70) ''CASH'' ''music'' False]"

text \<open>A date parser and a ledger file for the examples: the last line has no newline.\<close>

definition sample_date :: "string \<Rightarrow> error + nat" where
  "sample_date s = (if s = ''31/02/2020'' then Inl ValueError else Inr 0)"

definition sample_file :: "string list" where
  "sample_file =
     [''Movement;Date;Info;Amount;Name;Event;Concept;Advance;Origin;Comment'' @ [CHR 0x0A],
      ''second line of the header'' @ [CHR 0x0A],
      ''m1;01/02/2020;i;-12,00;n;Gala;food;Y;CAIXA;first'' @ [CHR 0x0A],
      ''m2;02/02/2020;i;5,00;n;Trip;bus;N;PAYPAL;second'' @ [CHR 0x0A],
      ''m3;03/02/2020;i;1,00;n;Gala;music;N;CAIXA;last'']"

text \<open>
  The balances of the two events of the sample ledger.
\<close>

definition sample_balances :: "string \<Rightarrow> nat event_balance option" where
  "sample_balances = calculateBalances [''Gala'', ''Trip''] sample_ledger"

section \<open>Properties of the calculating methods\<close>

lemma foldl_plus_start: "foldl (\<lambda>x y. x + y) (a::int) xs = a + sum_list xs"
  by (induction xs arbitrary: a) simp_all

lemma sumAmounts_sum_list: "sumAmounts ts = sum_list (map amount ts)"
  by (cases ts) (simp_all add: sumAmounts_def foldl_plus_start)

lemma conceptNames_loop_uniq: "conceptNames_loop acc ts = uniq_loop acc (map concept ts)"
  by (induction ts arbitrary: acc) simp_all

lemma uniq_loop_set: "set (uniq_loop acc ks) = set acc \<union> set ks"
  by (induction ks arbitrary: acc) auto

lemma uniq_loop_distinct: "distinct acc \<Longrightarrow> distinct (uniq_loop acc ks)"
  by (induction ks arbitrary: acc) simp_all

lemma first_index_less: "a \<in> set xs \<Longrightarrow> first_index xs a < length xs"
  by (induction xs) auto

lemma first_index_append:
  "first_index (xs @ ys) a =
     (if a \<in> set xs then first_index xs a else length xs + first_index ys a)"
  by (induction xs) auto

lemma first_index_skip:
  assumes "k \<in> set acc" and "first_index (acc @ ks) a < first_index (acc @ ks) b"
  shows "first_index (acc @ k # ks) a < first_index (acc @ k # ks) b"
proof -
  have la: "a \<in> set acc \<Longrightarrow> first_index acc a < length acc" for a :: 'a
    by (rule first_index_less)
  show ?thesis
    using assms la [of a] la [of b]
    by (auto simp: first_index_append split: if_splits)
qed

lemma uniq_loop_order:
  "sorted_wrt (\<lambda>a b. first_index acc a < first_index acc b) acc \<Longrightarrow>
   sorted_wrt (\<lambda>a b. first_index (acc @ ks) a < first_index (acc @ ks) b) (uniq_loop acc ks)"
proof (induction ks arbitrary: acc)
  case Nil
  then show ?case by simp
next
  case (Cons k ks)
  show ?case
  proof (cases "k \<in> set acc")
    case True
    have "sorted_wrt (\<lambda>a b. first_index (acc @ ks) a < first_index (acc @ ks) b) (uniq_loop acc ks)"
      using Cons.IH [OF Cons.prems] .
    then have "sorted_wrt (\<lambda>a b. first_index (acc @ k # ks) a < first_index (acc @ k # ks) b)
                 (uniq_loop acc ks)"
      by (rule sorted_wrt_mono_rel [rotated]) (rule first_index_skip [OF True])
    with True show ?thesis by simp
  next
    case False
    have "sorted_wrt (\<lambda>a b. first_index (acc @ [k]) a < first_index (acc @ [k]) b) (acc @ [k])"
      using Cons.prems False
      by (auto simp: sorted_wrt_append first_index_append first_index_less
               intro: sorted_wrt_mono_rel [rotated])
    from Cons.IH [OF this] False show ?thesis by simp
  qed
qed

lemma uniq_loop_first_occurrence:
  "distinct (uniq_loop [] ks) \<and> set (uniq_loop [] ks) = set ks
   \<and> sorted_wrt (\<lambda>x y. first_index ks x < first_index ks y) (uniq_loop [] ks)"
  using uniq_loop_order [of "[]" ks] by (simp add: uniq_loop_distinct uniq_loop_set)

lemma sorted_key_unique:
  fixes f :: "'a \<Rightarrow> nat"
  assumes "sorted_wrt (\<lambda>x y. f x < f y) xs" and "sorted_wrt (\<lambda>x y. f x < f y) ys"
    and "set xs = set ys"
  shows "xs = ys"
proof -
  have sx: "sorted_wrt (<) (map f xs)" and sy: "sorted_wrt (<) (map f ys)"
    using assms(1,2) by (simp_all add: sorted_wrt_map)
  have "set (map f ys) = set (map f xs)" using assms(3) by simp
  with sx sy have eq: "map f ys = map f xs" by (rule strict_sorted_equal)
  have "distinct (map f xs)" using sx strict_sorted_iff by blast
  then have "inj_on f (set xs \<union> set ys)" using assms(3) by (simp add: distinct_map)
  then have "map f xs = map f ys \<longleftrightarrow> xs = ys" by (rule inj_on_map_eq_map)
  with eq show ?thesis by simp
qed

lemma sum_list_filter_disj:
  "(\<And>x. x \<in> set xs \<Longrightarrow> \<not> (P x \<and> Q x)) \<Longrightarrow>
   sum_list (map f (filter (\<lambda>x. P x \<or> Q x) xs)) =
   sum_list (map f (filter P xs)) + (sum_list (map f (filter Q xs)) :: int)"
  by (induction xs) auto

lemma sum_list_by_key:
  "distinct ks \<Longrightarrow>
   sum_list (map (\<lambda>k. sum_list (map f (filter (\<lambda>x. key x = k \<and> P x) xs))) ks) =
   (sum_list (map f (filter (\<lambda>x. key x \<in> set ks \<and> P x) xs)) :: int)"
proof (induction ks)
  case Nil
  then show ?case by simp
next
  case (Cons k ks)
  have "sum_list (map f (filter (\<lambda>x. (key x = k \<and> P x) \<or> (key x \<in> set ks \<and> P x)) xs)) =
        sum_list (map f (filter (\<lambda>x. key x = k \<and> P x) xs)) +
        sum_list (map f (filter (\<lambda>x. key x \<in> set ks \<and> P x) xs))"
    using Cons.prems by (intro sum_list_filter_disj) auto
  moreover have "(\<lambda>x. key x \<in> set (k # ks) \<and> P x) =
                 (\<lambda>x. (key x = k \<and> P x) \<or> (key x \<in> set ks \<and> P x))"
    by auto
  ultimately show ?case using Cons by simp
qed

lemma sum_list_all_keys:
  assumes "distinct ks" and "key ` set xs \<subseteq> set ks"
  shows "sum_list (map (\<lambda>k. sum_list (map f (filter (\<lambda>x. key x = k \<and> P x) xs))) ks) =
         (sum_list (map f (filter P xs)) :: int)"
proof -
  have "filter (\<lambda>x. key x \<in> set ks \<and> P x) xs = filter P xs"
    using assms(2) by (intro filter_cong) auto
  with sum_list_by_key [OF assms(1), of f key P xs] show ?thesis by simp
qed

lemma lossConcepts_loop_eq:
  "lossConcepts_loop txLoss (concepts, tot) names =
     (concepts @ map (\<lambda>c. (c, sum_list (map amount
          (filter (\<lambda>t. concept t = c \<and> \<not> advance t) txLoss)))) names,
      tot + sum_list (map (\<lambda>c. sum_list (map amount
          (filter (\<lambda>t. concept t = c \<and> \<not> advance t) txLoss))) names))"
  by (induction names arbitrary: concepts tot) (simp_all add: sumAmounts_sum_list Let_def)

lemma sum_list_nonpos: "(\<And>x. x \<in> set xs \<Longrightarrow> f x \<le> (0::int)) \<Longrightarrow> sum_list (map f xs) \<le> 0"
  by (induction xs) (simp_all add: add_nonpos_nonpos)

lemma sum_list_nonneg': "(\<And>x. x \<in> set xs \<Longrightarrow> (0::int) \<le> f x) \<Longrightarrow> 0 \<le> sum_list (map f xs)"
  by (induction xs) simp_all

lemma calulcateGross_fields:
  "grossLoss (calulcateGross l p orig) = sum_list (map amount (filter (\<lambda>t. origin t = orig) l))"
  "grossProfit (calulcateGross l p orig) = sum_list (map amount (filter (\<lambda>t. origin t = orig) p))"
  "grossBalance (calulcateGross l p orig) =
     grossLoss (calulcateGross l p orig) + grossProfit (calulcateGross l p orig)"
  by (simp_all add: calulcateGross_def sumAmounts_sum_list Let_def)

lemma calulcateGross_signs:
  assumes "\<forall>t\<in>set l. amount t < 0" and "\<forall>t\<in>set p. 0 < amount t"
  shows "grossLoss (calulcateGross l p orig) \<le> 0 \<and> 0 \<le> grossProfit (calulcateGross l p orig)"
proof -
  have "sum_list (map amount (filter (\<lambda>t. origin t = orig) l)) \<le> 0"
    using assms(1) by (intro sum_list_nonpos) (simp add: less_imp_le)
  moreover have "0 \<le> sum_list (map amount (filter (\<lambda>t. origin t = orig) p))"
    using assms(2) by (intro sum_list_nonneg') (simp add: less_imp_le)
  ultimately show ?thesis by (simp add: calulcateGross_fields)
qed

lemma calculateEvent_fields:
  "transactionsLoss (calculateEvent e ts) = filter (\<lambda>t. amount t < 0) (filter (\<lambda>t. event t = e) ts)"
  "transactionsProfit (calculateEvent e ts) = filter (\<lambda>t. amount t > 0) (filter (\<lambda>t. event t = e) ts)"
  "caixaGross (calculateEvent e ts) =
     calulcateGross (transactionsLoss (calculateEvent e ts))
       (transactionsProfit (calculateEvent e ts)) ''CAIXA''"
  "paypalGross (calculateEvent e ts) =
     calulcateGross (transactionsLoss (calculateEvent e ts))
       (transactionsProfit (calculateEvent e ts)) ''PAYPAL''"
  "totalGrossLoss (calculateEvent e ts) =
     grossLoss (caixaGross (calculateEvent e ts)) + grossLoss (paypalGross (calculateEvent e ts))"
  "totalGrossProfit (calculateEvent e ts) =
     grossProfit (caixaGross (calculateEvent e ts)) + grossProfit (paypalGross (calculateEvent e ts))"
  "totalGrossBalance (calculateEvent e ts) =
     totalGrossProfit (calculateEvent e ts) + totalGrossLoss (calculateEvent e ts)"
  by (simp_all add: calculateEvent_def Let_def split: prod.splits)

lemma calculateEvent_concepts:
  "netLossConcepts (calculateEvent e ts) =
     fst (calculateEventLossConcepts (getEventConceptNames (transactionsLoss (calculateEvent e ts)))
            (transactionsLoss (calculateEvent e ts)))"
  "netLossTotal (calculateEvent e ts) =
     snd (calculateEventLossConcepts (getEventConceptNames (transactionsLoss (calculateEvent e ts)))
            (transactionsLoss (calculateEvent e ts)))"
  by (simp_all add: calculateEvent_def Let_def split: prod.splits)

lemma getEventConceptNames_props:
  "distinct (getEventConceptNames ts)"
  "set (getEventConceptNames ts) = concept ` set ts"
  "sorted_wrt (\<lambda>x y. first_index (map concept ts) x < first_index (map concept ts) y)
     (getEventConceptNames ts)"
  using uniq_loop_order [of "[]" "map concept ts"]
  by (simp_all add: getEventConceptNames_def conceptNames_loop_uniq uniq_loop_distinct uniq_loop_set)

lemma totalGrossBalance_sum:
  "totalGrossBalance (calculateEvent e ts) =
     sum_list (map amount (filter (\<lambda>t. event t = e \<and> (origin t = ''CAIXA'' \<or> origin t = ''PAYPAL'')) ts))"
proof -
  have "sum_list (map amount (filter (\<lambda>t. event t = e \<and> (origin t = ''CAIXA'' \<or> origin t = ''PAYPAL'')) ts)) =
        sum_list (map amount (filter (\<lambda>t. origin t = ''CAIXA'') (filter (\<lambda>t. 0 < amount t) (filter (\<lambda>t. event t = e) ts))))
      + sum_list (map amount (filter (\<lambda>t. origin t = ''PAYPAL'') (filter (\<lambda>t. 0 < amount t) (filter (\<lambda>t. event t = e) ts))))
      + sum_list (map amount (filter (\<lambda>t. origin t = ''CAIXA'') (filter (\<lambda>t. amount t < 0) (filter (\<lambda>t. event t = e) ts))))
      + sum_list (map amount (filter (\<lambda>t. origin t = ''PAYPAL'') (filter (\<lambda>t. amount t < 0) (filter (\<lambda>t. event t = e) ts))))"
    by (induction ts) auto
  then show ?thesis
    by (simp add: calculateEvent_fields calulcateGross_fields(1,2))
qed

section \<open>Gross figures of an event\<close>

text \<open>
  Claim C3. In the result of \<open>calculateEvent\<close>, for the CAIXA figures, for the PAYPAL
  figures and for the totals, the balance is the loss plus the profit, the loss is at
  most zero and the profit at least zero. The loss list holds exactly the transactions
  of the event with an amount below zero and the profit list exactly those with an
  amount above zero, both in the order of the input, so a transaction with amount zero
  is in neither list.
\<close>

theorem calculateEvent_gross_invariants:
  "(let b = calculateEvent e ts in
      grossBalance (caixaGross b) = grossLoss (caixaGross b) + grossProfit (caixaGross b)
    \<and> grossLoss (caixaGross b) \<le> 0 \<and> 0 \<le> grossProfit (caixaGross b)
    \<and> grossBalance (paypalGross b) = grossLoss (paypalGross b) + grossProfit (paypalGross b)
    \<and> grossLoss (paypalGross b) \<le> 0 \<and> 0 \<le> grossProfit (paypalGross b)
    \<and> totalGrossBalance b = totalGrossLoss b + totalGrossProfit b
    \<and> totalGrossLoss b \<le> 0 \<and> 0 \<le> totalGrossProfit b
    \<and> transactionsLoss b = filter (\<lambda>t. event t = e \<and> amount t < 0) ts
    \<and> transactionsProfit b = filter (\<lambda>t. event t = e \<and> amount t > 0) ts
    \<and> (\<forall>t. amount t = 0 \<longrightarrow> t \<notin> set (transactionsLoss b) \<and> t \<notin> set (transactionsProfit b)))"
proof -
  define b where "b = calculateEvent e ts"
  have l: "\<forall>t\<in>set (transactionsLoss b). amount t < 0"
    and p: "\<forall>t\<in>set (transactionsProfit b). 0 < amount t"
    by (simp_all add: b_def calculateEvent_fields(1,2))
  have c: "caixaGross b = calulcateGross (transactionsLoss b) (transactionsProfit b) ''CAIXA''"
    and q: "paypalGross b = calulcateGross (transactionsLoss b) (transactionsProfit b) ''PAYPAL''"
    by (simp_all add: b_def calculateEvent_fields(3,4))
  have cs: "grossLoss (caixaGross b) \<le> 0 \<and> 0 \<le> grossProfit (caixaGross b)"
    unfolding c using l p by (rule calulcateGross_signs)
  have qs: "grossLoss (paypalGross b) \<le> 0 \<and> 0 \<le> grossProfit (paypalGross b)"
    unfolding q using l p by (rule calulcateGross_signs)
  have cb: "grossBalance (caixaGross b) = grossLoss (caixaGross b) + grossProfit (caixaGross b)"
    unfolding c by (rule calulcateGross_fields(3))
  have qb: "grossBalance (paypalGross b) = grossLoss (paypalGross b) + grossProfit (paypalGross b)"
    unfolding q by (rule calulcateGross_fields(3))
  have tl: "totalGrossLoss b = grossLoss (caixaGross b) + grossLoss (paypalGross b)"
    and tp: "totalGrossProfit b = grossProfit (caixaGross b) + grossProfit (paypalGross b)"
    and tb: "totalGrossBalance b = totalGrossProfit b + totalGrossLoss b"
    by (simp_all add: b_def calculateEvent_fields(5,6,7))
  have fl: "transactionsLoss b = filter (\<lambda>t. event t = e \<and> amount t < 0) ts"
    and fp: "transactionsProfit b = filter (\<lambda>t. event t = e \<and> amount t > 0) ts"
    by (simp_all add: b_def calculateEvent_fields(1,2) conj_commute)
  have z: "\<forall>t. amount t = 0 \<longrightarrow> t \<notin> set (transactionsLoss b) \<and> t \<notin> set (transactionsProfit b)"
    using l p by fastforce
  show ?thesis
    unfolding Let_def b_def [symmetric]
    using cs qs cb qb tl tp tb fl fp z by simp
qed

theorem calculateEvent_gross_invariants_witness:
  "amount (sample_tx ''Gala'' 0 ''CAIXA'' ''food'' False) = 0
   \<and> sample_tx ''Gala'' 0 ''CAIXA'' ''food'' False \<in> set sample_ledger
   \<and> sample_tx ''Gala'' 0 ''CAIXA'' ''food'' False
        \<notin> set (transactionsLoss (calculateEvent ''Gala'' sample_ledger))
   \<and> sample_tx ''Gala'' 0 ''CAIXA'' ''food'' False
        \<notin> set (transactionsProfit (calculateEvent ''Gala'' sample_ledger))
   \<and> totalGrossLoss (calculateEvent ''Gala'' sample_ledger) \<le> 0
   \<and> 0 \<le> totalGrossProfit (calculateEvent ''Gala'' sample_ledger)"
  using calculateEvent_gross_invariants [of "''Gala''" sample_ledger]
  by (simp add: Let_def sample_ledger_def sample_tx_def)

text \<open>
  Claim C4. For every event, the CAIXA and the PAYPAL figures add up, one by one, to the
  total figures: loss, profit and balance. For the two transactions of the scenario, a
  CAIXA expense of 1000 and a PAYPAL income of 500 for the event Gala, whatever their
  other fields, the CAIXA figures are loss -1000, profit 0, balance -1000, the PAYPAL
  figures are loss 0, profit 500, balance 500, and the total gross balance is -500.
\<close>

theorem calculateEvent_origin_sum:
  "(let b = calculateEvent e (ts :: 'd transaction list) in
      grossLoss (caixaGross b) + grossLoss (paypalGross b) = totalGrossLoss b
    \<and> grossProfit (caixaGross b) + grossProfit (paypalGross b) = totalGrossProfit b
    \<and> grossBalance (caixaGross b) + grossBalance (paypalGross b) = totalGrossBalance b)
   \<and> (\<forall>t1 t2 :: 'd transaction.
        amount t1 = - 1000 \<and> origin t1 = ''CAIXA'' \<and> event t1 = ''Gala''
        \<and> amount t2 = 500 \<and> origin t2 = ''PAYPAL'' \<and> event t2 = ''Gala'' \<longrightarrow>
        (let g = calculateEvent ''Gala'' [t1, t2] in
           caixaGross g = \<lparr>grossLoss = - 1000, grossProfit = 0, grossBalance = - 1000\<rparr>
         \<and> paypalGross g = \<lparr>grossLoss = 0, grossProfit = 500, grossBalance = 500\<rparr>
         \<and> totalGrossBalance g = - 500))"
proof -
  have "grossBalance (caixaGross (calculateEvent e ts)) + grossBalance (paypalGross (calculateEvent e ts))
          = totalGrossBalance (calculateEvent e ts)"
    by (simp add: calculateEvent_fields(3-7) calulcateGross_fields(3))
  moreover have "\<forall>t1 t2 :: 'd transaction.
        amount t1 = - 1000 \<and> origin t1 = ''CAIXA'' \<and> event t1 = ''Gala''
        \<and> amount t2 = 500 \<and> origin t2 = ''PAYPAL'' \<and> event t2 = ''Gala'' \<longrightarrow>
        (let g = calculateEvent ''Gala'' [t1, t2] in
           caixaGross g = \<lparr>grossLoss = - 1000, grossProfit = 0, grossBalance = - 1000\<rparr>
         \<and> paypalGross g = \<lparr>grossLoss = 0, grossProfit = 500, grossBalance = 500\<rparr>
         \<and> totalGrossBalance g = - 500)"
    by (simp add: calculateEvent_def calulcateGross_def sumAmounts_def Let_def split: prod.splits)
  ultimately show ?thesis
    by (simp add: Let_def calculateEvent_fields(5,6))
qed

theorem calculateEvent_origin_sum_witness:
  "caixaGross (calculateEvent ''Gala'' (take 2 sample_ledger))
     = \<lparr>grossLoss = - 1000, grossProfit = 0, grossBalance = - 1000\<rparr>
   \<and> paypalGross (calculateEvent ''Gala'' (take 2 sample_ledger))
     = \<lparr>grossLoss = 0, grossProfit = 500, grossBalance = 500\<rparr>
   \<and> totalGrossBalance (calculateEvent ''Gala'' (take 2 sample_ledger)) = - 500
   \<and> grossBalance (caixaGross (calculateEvent ''Gala'' sample_ledger))
       + grossBalance (paypalGross (calculateEvent ''Gala'' sample_ledger))
     = totalGrossBalance (calculateEvent ''Gala'' sample_ledger)"
proof -
  have "take 2 sample_ledger =
          [sample_tx ''Gala'' (- 1000) ''CAIXA'' ''food'' False,
           sample_tx ''Gala'' 500 ''PAYPAL'' ''tickets'' False]"
    by (simp add: sample_ledger_def)
  then show ?thesis
    using calculateEvent_origin_sum [of "''Gala''" sample_ledger]
    by (simp add: Let_def sample_tx_def)
qed

section \<open>Net loss by concept\<close>

text \<open>
  Claim C5. For every event, the names of the net-loss breakdown are the concepts of the
  event's loss transactions, each exactly once, ordered by first occurrence among the
  loss transactions. The amount of a concept is the sum of the amounts of the loss
  transactions with that concept whose advance flag is false, and \<open>netLossTotal\<close> is
  the sum of the amounts of the breakdown, which is the sum of the losses that are not
  flagged as advance.
\<close>

theorem calculateEvent_net_loss_concepts:
  "(let b = calculateEvent e ts;
        loss = transactionsLoss b;
        names = map fst (netLossConcepts b)
    in distinct names
     \<and> set names = concept ` set loss
     \<and> sorted_wrt (\<lambda>x y. first_index (map concept loss) x < first_index (map concept loss) y) names
     \<and> netLossConcepts b =
         map (\<lambda>c. (c, sum_list (map amount
                (filter (\<lambda>t. concept t = c \<and> \<not> advance t) loss)))) names
     \<and> netLossTotal b = sum_list (map snd (netLossConcepts b))
     \<and> netLossTotal b = sum_list (map amount (filter (\<lambda>t. \<not> advance t) loss)))"
proof -
  define b where "b = calculateEvent e ts"
  define loss where "loss = transactionsLoss b"
  define S where "S = (\<lambda>c. sum_list (map amount (filter (\<lambda>t. concept t = c \<and> \<not> advance t) loss)))"
  define names where "names = getEventConceptNames loss"
  have con: "netLossConcepts b = map (\<lambda>c. (c, S c)) names"
    and tot: "netLossTotal b = sum_list (map S names)"
    by (simp_all add: b_def loss_def names_def S_def calculateEvent_concepts
          calculateEventLossConcepts_def lossConcepts_loop_eq)
  have nm: "map fst (netLossConcepts b) = names"
    by (simp add: con comp_def)
  have sn: "map snd (netLossConcepts b) = map S names"
    by (simp add: con comp_def)
  have d: "distinct names" and s: "set names = concept ` set loss"
    and o: "sorted_wrt (\<lambda>x y. first_index (map concept loss) x < first_index (map concept loss) y) names"
    unfolding names_def by (rule getEventConceptNames_props)+
  have "sum_list (map S names) = sum_list (map amount (filter (\<lambda>t. \<not> advance t) loss))"
    unfolding S_def using d s by (intro sum_list_all_keys) simp_all
  then have t2: "netLossTotal b = sum_list (map amount (filter (\<lambda>t. \<not> advance t) loss))"
    and t1: "netLossTotal b = sum_list (map snd (netLossConcepts b))"
    by (simp_all add: tot sn)
  show ?thesis
    unfolding Let_def b_def [symmetric] loss_def [symmetric] nm
    using d s o con t1 t2 unfolding S_def by (intro conjI)
qed

theorem calculateEvent_net_loss_concepts_witness:
  "netLossConcepts (calculateEvent ''Gala'' sample_ledger) = [(''food'', - 1200), (''music'', - 70)]
   \<and> netLossTotal (calculateEvent ''Gala'' sample_ledger) = - 1270
   \<and> map concept (transactionsLoss (calculateEvent ''Gala'' sample_ledger))
       = [''food'', ''music'', ''food'', ''music'']"
proof -
  have l: "transactionsLoss (calculateEvent ''Gala'' sample_ledger) =
             [sample_tx ''Gala'' (- 1000) ''CAIXA'' ''food'' False,
              sample_tx ''Gala'' (- 300) ''CAIXA'' ''music'' True,
              sample_tx ''Gala'' (- 200) ''PAYPAL'' ''food'' False,
              sample_tx ''Gala'' (- 70) ''CASH'' ''music'' False]"
    by (simp add: calculateEvent_fields(1) sample_ledger_def sample_tx_def)
  have n: "map fst (netLossConcepts (calculateEvent ''Gala'' sample_ledger)) = [''food'', ''music'']"
    by (simp add: calculateEvent_concepts(1) l calculateEventLossConcepts_def
          getEventConceptNames_def lossConcepts_loop_eq comp_def)
       (simp add: sample_tx_def)
  show ?thesis
    using calculateEvent_net_loss_concepts [of "''Gala''" sample_ledger]
    unfolding Let_def n l by (simp add: sample_tx_def)
qed

section \<open>The balance over all events\<close>

text \<open>
  Claim C1, as amended. The total figures of an event are the sums of its CAIXA and
  PAYPAL figures, so a transaction with any other origin is in no total. For every list
  of transactions and every list of event names without repetition that holds the event
  of each transaction, the sum over the event names of \<open>totalGrossBalance\<close> is the sum
  of the amounts of the transactions whose origin is CAIXA or PAYPAL: each of them is
  counted once, and an amount of zero adds nothing.
\<close>

theorem sum_of_event_balances:
  assumes "distinct eventNames" and "event ` set transactions \<subseteq> set eventNames"
  shows "sumEventBalances eventNames transactions = sumChannelAmounts transactions"
  unfolding sumEventBalances_def sumChannelAmounts_def totalGrossBalance_sum
  using assms by (rule sum_list_all_keys)

theorem sum_of_event_balances_witness:
  "distinct [''Gala'', ''Trip''] \<and> event ` set sample_ledger \<subseteq> set [''Gala'', ''Trip'']
   \<and> sumEventBalances [''Gala'', ''Trip''] sample_ledger = - 1250
   \<and> sumChannelAmounts sample_ledger = - 1250
   \<and> sumNonzeroAmounts sample_ledger = - 1320"
proof -
  have d: "distinct [''Gala'', ''Trip'']" by simp
  have s: "event ` set sample_ledger \<subseteq> set [''Gala'', ''Trip'']"
    by (simp add: sample_ledger_def sample_tx_def)
  have c: "sumChannelAmounts sample_ledger = - 1250"
    by (simp add: sumChannelAmounts_def sample_ledger_def sample_tx_def)
  have n: "sumNonzeroAmounts sample_ledger = - 1320"
    by (simp add: sumNonzeroAmounts_def sample_ledger_def sample_tx_def)
  from sum_of_event_balances [OF d s] d s c n show ?thesis by simp
qed

text \<open>
  Claim C1 as stated fails for an origin that is neither CAIXA nor PAYPAL: for the single
  transaction of 70 cents spent in cash for the event Gala, the sum over the events of
  the total gross balance is 0, and the sum of the amounts that are not zero is -70.
\<close>

theorem sum_of_event_balances_counterexample:
  "sumEventBalances [''Gala''] [sample_tx ''Gala'' (- 70) ''CASH'' ''music'' False] = 0
   \<and> sumNonzeroAmounts [sample_tx ''Gala'' (- 70) ''CASH'' ''music'' False] = - 70"
  by (simp add: sumEventBalances_def sumNonzeroAmounts_def calculateEvent_def calulcateGross_def
        sumAmounts_def sample_tx_def Let_def split: prod.splits)

section \<open>Amounts as text\<close>

lemma digit_not_space: "is_digit c \<Longrightarrow> \<not> py_isspace c"
  by (auto simp: is_digit_def py_isspace_def)

lemma digit_not_sign: "is_digit c \<Longrightarrow> c \<noteq> CHR ''+'' \<and> c \<noteq> CHR ''-'' \<and> c \<noteq> CHR ''_''"
  by (auto simp: is_digit_def)

lemma digit_run_chars: "digit_run b \<Longrightarrow> c \<in> set b \<Longrightarrow> is_digit c \<or> c = CHR ''_''"
  by (induction b rule: digit_run.induct) (auto split: if_splits)

lemma digit_run_digits: "ds \<noteq> [] \<Longrightarrow> list_all is_digit ds \<Longrightarrow> digit_run ds"
  by (induction ds rule: digit_run.induct) (auto simp: digit_not_sign)

lemma py_int_digits:
  assumes "ds \<noteq> []" and "list_all is_digit ds" and "length ds \<le> int_max_str_digits"
  shows "py_int ds = Inr (digits_value ds)"
proof -
  obtain c r where ds: "ds = c # r" using assms(1) by (cases ds) auto
  have ns: "\<forall>x\<in>set ds. \<not> py_isspace x"
    using assms(2) by (auto simp: list_all_iff digit_not_space)
  have c: "\<not> py_isspace c" "c \<noteq> CHR ''+''" "c \<noteq> CHR ''-''"
    using assms(2) ds by (auto simp: digit_not_space digit_not_sign)
  have t: "dropWhile py_isspace ds = ds" using c ds by simp
  have b: "takeWhile (\<lambda>x. \<not> py_isspace x) ds = ds" "dropWhile (\<lambda>x. \<not> py_isspace x) ds = []"
    using ns by (simp_all add: takeWhile_eq_all_conv)
  have f: "filter is_digit ds = ds" using assms(2) by (simp add: list_all_iff)
  have r: "digit_run ds" using assms(1,2) by (rule digit_run_digits)
  have n: "(case ds of x # r \<Rightarrow> x = CHR ''-'' | [] \<Rightarrow> False) = False"
    using c ds by simp
  have u: "(case ds of x # r \<Rightarrow> if x = CHR ''+'' \<or> x = CHR ''-'' then r else ds | [] \<Rightarrow> []) = ds"
    using c ds by simp
  show ?thesis
    unfolding py_int_def Let_def t n u b f using r assms(3) by simp
qed

lemma py_int_not_plain:
  assumes "c \<in> set s" and "\<not> plain_char c"
  shows "py_int s = Inl ValueError"
proof -
  define t where "t = dropWhile py_isspace s"
  define u where "u = (case t of x # r \<Rightarrow> if x = CHR ''+'' \<or> x = CHR ''-'' then r else t | [] \<Rightarrow> [])"
  have c: "\<not> py_isspace c" "c \<noteq> CHR ''+''" "c \<noteq> CHR ''-''" "\<not> is_digit c" "c \<noteq> CHR ''_''"
    using assms(2) by (auto simp: plain_char_def)
  have "set s = set (takeWhile py_isspace s) \<union> set t"
    unfolding t_def by (metis set_append takeWhile_dropWhile_id)
  moreover have "c \<notin> set (takeWhile py_isspace s)"
    using c(1) by (auto dest: set_takeWhileD)
  ultimately have ct: "c \<in> set t" using assms(1) by auto
  have cu: "c \<in> set u"
    using ct c(2,3) unfolding u_def by (cases t) (auto split: if_splits)
  have "set u = set (takeWhile (\<lambda>x. \<not> py_isspace x) u) \<union> set (dropWhile (\<lambda>x. \<not> py_isspace x) u)"
    by (metis set_append takeWhile_dropWhile_id)
  with cu consider "c \<in> set (takeWhile (\<lambda>x. \<not> py_isspace x) u)"
    | "c \<in> set (dropWhile (\<lambda>x. \<not> py_isspace x) u)" by auto
  then have "\<not> (digit_run (takeWhile (\<lambda>x. \<not> py_isspace x) u)
               \<and> list_all py_isspace (dropWhile (\<lambda>x. \<not> py_isspace x) u))"
  proof cases
    case 1
    then show ?thesis using digit_run_chars c(4,5) by blast
  next
    case 2
    then show ?thesis using c(1) by (auto simp: list_all_iff)
  qed
  then show ?thesis
    unfolding py_int_def t_def [symmetric] Let_def u_def [symmetric] by auto
qed

lemma parseAmount_examples:
  "parseAmount ''1.234,56'' = Inr 123456" "parseAmount ''-12,00'' = Inr (- 1200)"
  by (simp_all add: parseAmount_def strip_separators_def py_int_def int_max_str_digits_def py_isspace_def is_digit_def
       digits_value_def digit_val_def err_bind_def Let_def)

lemma underscore_not_space:
  "\<not> py_isspace CHR ''_''" "\<not> py_isspace CHR ''+''" "\<not> py_isspace CHR ''-''"
  by (simp_all add: py_isspace_def)

lemma underscore_not_digit: "\<not> is_digit CHR ''_''"
  by (simp add: is_digit_def)

lemma digit_run_grammar:
  "digit_run b \<longleftrightarrow>
     b \<noteq> [] \<and> list_all (\<lambda>x. is_digit x \<or> x = CHR ''_'') b
     \<and> hd b \<noteq> CHR ''_'' \<and> last b \<noteq> CHR ''_''
     \<and> successively (\<lambda>x y. \<not> (x = CHR ''_'' \<and> y = CHR ''_'')) b"
  by (induction b rule: digit_run.induct) (auto simp: underscore_not_digit successively_Cons)

lemma digit_run_hd: "digit_run b \<Longrightarrow> \<exists>d r. b = d # r \<and> is_digit d"
  by (cases b rule: digit_run.cases) auto

lemma digit_run_no_space: "digit_run b \<Longrightarrow> x \<in> set b \<Longrightarrow> \<not> py_isspace x"
  using digit_run_chars [of b x] digit_not_space [of x] underscore_not_space(1) by auto

lemma spaces_then_rest:
  assumes "list_all py_isspace ws" and "\<not> py_isspace x"
  shows "dropWhile py_isspace (ws @ x # xs) = x # xs"
    and "takeWhile py_isspace (ws @ x # xs) = ws"
  using assms by (simp_all add: list_all_iff dropWhile_append2 takeWhile_append2)

lemma body_then_spaces:
  assumes "digit_run b" and "list_all py_isspace ws"
  shows "takeWhile (\<lambda>x. \<not> py_isspace x) (b @ ws) = b"
    and "dropWhile (\<lambda>x. \<not> py_isspace x) (b @ ws) = ws"
proof -
  have nb: "\<And>x. x \<in> set b \<Longrightarrow> \<not> py_isspace x"
    using assms(1) by (rule digit_run_no_space)
  have w: "takeWhile (\<lambda>x. \<not> py_isspace x) ws = []" "dropWhile (\<lambda>x. \<not> py_isspace x) ws = ws"
    using assms(2) by (cases ws; simp)+
  show "takeWhile (\<lambda>x. \<not> py_isspace x) (b @ ws) = b"
    using nb w by (simp add: takeWhile_append2)
  show "dropWhile (\<lambda>x. \<not> py_isspace x) (b @ ws) = ws"
    using nb w by (simp add: dropWhile_append2)
qed

lemma py_int_accepts:
  assumes "list_all py_isspace ws1" and "list_all py_isspace ws2"
    and "sg \<in> set [[], ''+'', ''-'']" and "digit_run body"
    and "length (filter is_digit body) \<le> int_max_str_digits"
  shows "py_int (ws1 @ sg @ body @ ws2) =
           Inr ((if sg = ''-'' then - 1 else 1) * digits_value (filter is_digit body))"
proof -
  obtain d b' where body: "body = d # b'" and d: "is_digit d"
    using digit_run_hd [OF assms(4)] by blast
  have dn: "\<not> py_isspace d" "d \<noteq> CHR ''+''" "d \<noteq> CHR ''-''"
    using d by (simp_all add: digit_not_space digit_not_sign)
  note bs = body_then_spaces [OF assms(4) assms(2)]
  consider "sg = []" | "sg = ''+''" | "sg = ''-''" using assms(3) by auto
  then show ?thesis
  proof cases
    case 1
    have t: "dropWhile py_isspace (ws1 @ sg @ body @ ws2) = body @ ws2"
      using spaces_then_rest(1) [OF assms(1) dn(1), of "b' @ ws2"] by (simp add: 1 body)
    have n: "(case body @ ws2 of c # r \<Rightarrow> c = CHR ''-'' | [] \<Rightarrow> False) = False"
      using dn by (simp add: body)
    have u: "(case body @ ws2 of c # r \<Rightarrow> if c = CHR ''+'' \<or> c = CHR ''-'' then r else body @ ws2
              | [] \<Rightarrow> []) = body @ ws2"
      using dn by (simp add: body)
    show ?thesis
      unfolding py_int_def Let_def t n u bs using assms(4,2,5) by (simp add: 1)
  next
    case 2
    have t: "dropWhile py_isspace (ws1 @ sg @ body @ ws2) = CHR ''+'' # body @ ws2"
      using spaces_then_rest(1) [OF assms(1) underscore_not_space(2), of "body @ ws2"]
      by (simp add: 2)
    have n: "(case CHR ''+'' # body @ ws2 of c # r \<Rightarrow> c = CHR ''-'' | [] \<Rightarrow> False) = False"
      by simp
    have u: "(case CHR ''+'' # body @ ws2 of
                c # r \<Rightarrow> if c = CHR ''+'' \<or> c = CHR ''-'' then r else CHR ''+'' # body @ ws2
              | [] \<Rightarrow> []) = body @ ws2"
      by simp
    show ?thesis
      unfolding py_int_def Let_def t n u bs using assms(4,2,5) by (simp add: 2)
  next
    case 3
    have t: "dropWhile py_isspace (ws1 @ sg @ body @ ws2) = CHR ''-'' # body @ ws2"
      using spaces_then_rest(1) [OF assms(1) underscore_not_space(3), of "body @ ws2"]
      by (simp add: 3)
    have n: "(case CHR ''-'' # body @ ws2 of c # r \<Rightarrow> c = CHR ''-'' | [] \<Rightarrow> False) = True"
      by simp
    have u: "(case CHR ''-'' # body @ ws2 of
                c # r \<Rightarrow> if c = CHR ''+'' \<or> c = CHR ''-'' then r else CHR ''-'' # body @ ws2
              | [] \<Rightarrow> []) = body @ ws2"
      by simp
    show ?thesis
      unfolding py_int_def Let_def t n u bs using assms(4,2,5) by (simp add: 3)
  qed
qed

lemma py_int_shape:
  assumes "py_int s = Inr v"
  shows "\<exists>ws1 sg body ws2. s = ws1 @ sg @ body @ ws2
     \<and> list_all py_isspace ws1 \<and> list_all py_isspace ws2
     \<and> sg \<in> set [[], ''+'', ''-''] \<and> digit_run body
     \<and> length (filter is_digit body) \<le> int_max_str_digits
     \<and> v = (if sg = ''-'' then - 1 else 1) * digits_value (filter is_digit body)"
proof -
  define ws1 where "ws1 = takeWhile py_isspace s"
  define t where "t = dropWhile py_isspace s"
  define sg where "sg = (case t of c # r \<Rightarrow> if c = CHR ''+'' \<or> c = CHR ''-'' then [c] else [] | [] \<Rightarrow> [])"
  define u where "u = (case t of c # r \<Rightarrow> if c = CHR ''+'' \<or> c = CHR ''-'' then r else t | [] \<Rightarrow> [])"
  define neg where "neg = (case t of c # r \<Rightarrow> c = CHR ''-'' | [] \<Rightarrow> False)"
  define body where "body = takeWhile (\<lambda>c. \<not> py_isspace c) u"
  define ws2 where "ws2 = dropWhile (\<lambda>c. \<not> py_isspace c) u"
  have s: "s = ws1 @ t" by (simp add: ws1_def t_def)
  have tu: "t = sg @ u" by (cases t) (auto simp: sg_def u_def)
  have ub: "u = body @ ws2" by (simp add: body_def ws2_def)
  have w1: "list_all py_isspace ws1"
    by (auto simp: ws1_def list_all_iff dest: set_takeWhileD)
  have sgs: "sg \<in> set [[], ''+'', ''-'']" by (cases t) (auto simp: sg_def)
  have ng: "neg \<longleftrightarrow> sg = ''-''" by (cases t) (auto simp: sg_def neg_def)
  have p: "py_int s =
      (if digit_run body \<and> list_all py_isspace ws2
            \<and> length (filter is_digit body) \<le> int_max_str_digits
       then Inr ((if neg then - 1 else 1) * digits_value (filter is_digit body))
       else Inl ValueError)"
    unfolding py_int_def Let_def t_def [symmetric] u_def [symmetric] neg_def [symmetric]
      body_def [symmetric] ws2_def [symmetric] ..
  from assms p have ok: "digit_run body" "list_all py_isspace ws2"
    "length (filter is_digit body) \<le> int_max_str_digits"
    and v: "v = (if neg then - 1 else 1) * digits_value (filter is_digit body)"
    by (auto split: if_splits)
  have "s = ws1 @ sg @ body @ ws2" using s tu ub by simp
  with w1 sgs ok v ng show ?thesis by (intro exI [of _ ws1] exI [of _ sg] exI [of _ body] exI [of _ ws2]) simp
qed

lemma py_int_error: "py_int s = Inl e \<Longrightarrow> e = ValueError"
  by (auto simp: py_int_def Let_def split: if_splits)

lemma parseAmount_Inr_iff:
  "parseAmount (c # r) = Inr v \<longleftrightarrow>
     (\<exists>ws1 sg body ws2.
        strip_separators (if c = CHR ''-'' then r else c # r) = ws1 @ sg @ body @ ws2
        \<and> list_all py_isspace ws1 \<and> list_all py_isspace ws2
        \<and> sg \<in> set [[], ''+'', ''-''] \<and> digit_run body
        \<and> length (filter is_digit body) \<le> int_max_str_digits
        \<and> v = (if c = CHR ''-'' then - 1 else 1)
              * ((if sg = ''-'' then - 1 else 1) * digits_value (filter is_digit body)))"
  (is "?L \<longleftrightarrow> ?R")
proof
  assume l: ?L
  define s where "s = strip_separators (if c = CHR ''-'' then r else c # r)"
  from l obtain w where w: "py_int s = Inr w" and v: "v = (if c = CHR ''-'' then - 1 else 1) * w"
    by (auto simp: parseAmount_def err_bind_def s_def split: if_splits sum.splits)
  from py_int_shape [OF w] v show ?R
    unfolding s_def by blast
next
  assume ?R
  then obtain ws1 sg body ws2 where d:
    "strip_separators (if c = CHR ''-'' then r else c # r) = ws1 @ sg @ body @ ws2"
    "list_all py_isspace ws1" "list_all py_isspace ws2"
    "sg \<in> set [[], ''+'', ''-'']" "digit_run body"
    "length (filter is_digit body) \<le> int_max_str_digits"
    "v = (if c = CHR ''-'' then - 1 else 1)
           * ((if sg = ''-'' then - 1 else 1) * digits_value (filter is_digit body))"
    by blast
  have p: "py_int (strip_separators (if c = CHR ''-'' then r else c # r)) =
             Inr ((if sg = ''-'' then - 1 else 1) * digits_value (filter is_digit body))"
    unfolding d(1) using d(2,3,4,5,6) by (rule py_int_accepts)
  show ?L
  proof (cases "c = CHR ''-''")
    case True
    with p d(7) show ?thesis by (simp add: parseAmount_def err_bind_def)
  next
    case False
    with p d(7) show ?thesis by (simp add: parseAmount_def)
  qed
qed

lemma parseAmount_error: "parseAmount (c # r) = Inl e \<Longrightarrow> e = ValueError"
  by (auto simp: parseAmount_def err_bind_def split: if_splits sum.splits dest: py_int_error)

text \<open>
  Claim C6, as amended. \<open>parseAmount\<close> removes every comma and every dot and hands the
  rest to \<open>int\<close>; with a leading minus sign it parses what follows the sign and negates
  the result. So "1.234,56" gives 123456 and "-12,00" gives -1200. On ASCII text it
  succeeds exactly when the text left is made, in this order, of whitespace, at most one
  sign, digits that single underscores may separate, and whitespace, with no more digits
  than the interpreter's limit; the result is the number the digits write, negated by a
  minus sign before the digits and once more by the leading minus sign. Every other text
  fails: with \<open>IndexError\<close> when it is empty and with \<open>ValueError\<close> otherwise, which is
  the error raised by every text, ASCII or not, that is left with an ASCII character other
  than a digit, a sign, an underscore or whitespace.
\<close>

theorem parseAmount_cents:
  "parseAmount ''1.234,56'' = Inr 123456
   \<and> parseAmount ''-12,00'' = Inr (- 1200)
   \<and> parseAmount [] = Inl IndexError
   \<and> (\<forall>c r e. parseAmount (c # r) = Inl e \<longrightarrow> e = ValueError)
   \<and> (\<forall>c r v. list_all is_ascii (c # r) \<longrightarrow>
         (parseAmount (c # r) = Inr v \<longleftrightarrow>
            (\<exists>ws1 sg body ws2.
               strip_separators (if c = CHR ''-'' then r else c # r) = ws1 @ sg @ body @ ws2
               \<and> list_all py_isspace ws1 \<and> list_all py_isspace ws2
               \<and> sg \<in> set [[], ''+'', ''-''] \<and> digit_run body
               \<and> length (filter is_digit body) \<le> int_max_str_digits
               \<and> v = (if c = CHR ''-'' then - 1 else 1)
                     * ((if sg = ''-'' then - 1 else 1)
                        * digits_value (filter is_digit body)))))
   \<and> (\<forall>b. digit_run b \<longleftrightarrow>
         b \<noteq> [] \<and> list_all (\<lambda>x. is_digit x \<or> x = CHR ''_'') b
         \<and> hd b \<noteq> CHR ''_'' \<and> last b \<noteq> CHR ''_''
         \<and> successively (\<lambda>x y. \<not> (x = CHR ''_'' \<and> y = CHR ''_'')) b)
   \<and> (\<forall>c r. c \<noteq> CHR ''-'' \<and> strip_separators (c # r) \<noteq> []
              \<and> list_all is_digit (strip_separators (c # r))
              \<and> length (strip_separators (c # r)) \<le> int_max_str_digits \<longrightarrow>
            parseAmount (c # r) = Inr (digits_value (strip_separators (c # r))))
   \<and> (\<forall>r. strip_separators r \<noteq> [] \<and> list_all is_digit (strip_separators r)
            \<and> length (strip_separators r) \<le> int_max_str_digits \<longrightarrow>
            parseAmount (CHR ''-'' # r) = Inr (- digits_value (strip_separators r)))
   \<and> (\<forall>c r x. c \<noteq> CHR ''-'' \<and> x \<in> set (strip_separators (c # r))
              \<and> is_ascii x \<and> \<not> plain_char x \<longrightarrow>
            parseAmount (c # r) = Inl ValueError)
   \<and> (\<forall>r x. x \<in> set (strip_separators r) \<and> is_ascii x \<and> \<not> plain_char x \<longrightarrow>
            parseAmount (CHR ''-'' # r) = Inl ValueError)"
proof -
  have e: "\<forall>c r e. parseAmount (c # r) = Inl e \<longrightarrow> e = ValueError"
    using parseAmount_error by blast
  have i: "\<forall>c r v. list_all is_ascii (c # r) \<longrightarrow>
         (parseAmount (c # r) = Inr v \<longleftrightarrow>
            (\<exists>ws1 sg body ws2.
               strip_separators (if c = CHR ''-'' then r else c # r) = ws1 @ sg @ body @ ws2
               \<and> list_all py_isspace ws1 \<and> list_all py_isspace ws2
               \<and> sg \<in> set [[], ''+'', ''-''] \<and> digit_run body
               \<and> length (filter is_digit body) \<le> int_max_str_digits
               \<and> v = (if c = CHR ''-'' then - 1 else 1)
                     * ((if sg = ''-'' then - 1 else 1)
                        * digits_value (filter is_digit body))))"
    using parseAmount_Inr_iff by blast
  have g: "\<forall>b. digit_run b \<longleftrightarrow>
         b \<noteq> [] \<and> list_all (\<lambda>x. is_digit x \<or> x = CHR ''_'') b
         \<and> hd b \<noteq> CHR ''_'' \<and> last b \<noteq> CHR ''_''
         \<and> successively (\<lambda>x y. \<not> (x = CHR ''_'' \<and> y = CHR ''_'')) b"
    using digit_run_grammar by blast
  have d1: "\<forall>c r. c \<noteq> CHR ''-'' \<and> strip_separators (c # r) \<noteq> []
              \<and> list_all is_digit (strip_separators (c # r))
              \<and> length (strip_separators (c # r)) \<le> int_max_str_digits \<longrightarrow>
            parseAmount (c # r) = Inr (digits_value (strip_separators (c # r)))"
    by (simp add: parseAmount_def py_int_digits)
  have d2: "\<forall>r. strip_separators r \<noteq> [] \<and> list_all is_digit (strip_separators r)
            \<and> length (strip_separators r) \<le> int_max_str_digits \<longrightarrow>
            parseAmount (CHR ''-'' # r) = Inr (- digits_value (strip_separators r))"
    by (simp add: parseAmount_def py_int_digits err_bind_def)
  have b1: "\<forall>c r x. c \<noteq> CHR ''-'' \<and> x \<in> set (strip_separators (c # r))
              \<and> is_ascii x \<and> \<not> plain_char x \<longrightarrow>
            parseAmount (c # r) = Inl ValueError"
    by (auto simp: parseAmount_def py_int_not_plain)
  have b2: "\<forall>r x. x \<in> set (strip_separators r) \<and> is_ascii x \<and> \<not> plain_char x \<longrightarrow>
            parseAmount (CHR ''-'' # r) = Inl ValueError"
    by (auto simp: parseAmount_def py_int_not_plain err_bind_def)
  have x: "parseAmount [] = Inl IndexError" by (simp add: parseAmount_def)
  from parseAmount_examples x e i g d1 d2 b1 b2 show ?thesis by (intro conjI)
qed

theorem parseAmount_cents_witness:
  "list_all is_ascii ''- +1_0.0, ''
   \<and> strip_separators '' +1_0.0, '' = '' '' @ ''+'' @ ''1_00'' @ '' ''
   \<and> digit_run ''1_00'' \<and> length (filter is_digit ''1_00'') \<le> int_max_str_digits
   \<and> parseAmount ''- +1_0.0, '' = Inr (- 100)
   \<and> list_all is_ascii ''5+'' \<and> parseAmount ''5+'' = Inl ValueError
   \<and> parseAmount ''5 5'' = Inl ValueError
   \<and> parseAmount ''1__0'' = Inl ValueError
   \<and> parseAmount ''+-5'' = Inl ValueError
   \<and> is_ascii CHR ''a'' \<and> \<not> plain_char CHR ''a''
   \<and> parseAmount ''12a,00'' = Inl ValueError
   \<and> parseAmount ''0.07'' = Inr 7"
proof -
  note T = parseAmount_cents [THEN conjunct2, THEN conjunct2, THEN conjunct2]
  note I = T [THEN conjunct2, THEN conjunct1, rule_format]
  have a: "list_all is_ascii ''- +1_0.0, ''" "list_all is_ascii ''5+''"
    "is_ascii CHR ''a'' \<and> \<not> plain_char CHR ''a''"
    by (simp_all add: is_ascii_def plain_char_def is_digit_def py_isspace_def)
  have s: "strip_separators '' +1_0.0, '' = '' '' @ ''+'' @ ''1_00'' @ '' ''"
    "strip_separators ''12a,00'' = ''12a00''" "strip_separators ''0.07'' = ''007''"
    by (simp_all add: strip_separators_def)
  have b: "digit_run ''1_00''" "length (filter is_digit ''1_00'') \<le> int_max_str_digits"
    "list_all py_isspace '' ''" "digits_value (filter is_digit ''1_00'') = 100"
    "list_all is_digit ''007''" "digits_value ''007'' = 7"
    "length ''007'' \<le> int_max_str_digits"
    by (simp_all add: is_digit_def py_isspace_def int_max_str_digits_def digits_value_def
          digit_val_def)
  have ok: "parseAmount ''- +1_0.0, '' = Inr (- 100)"
  proof -
    have "\<exists>ws1 sg body ws2.
            strip_separators (if CHR ''-'' = CHR ''-'' then '' +1_0.0, ''
                              else CHR ''-'' # '' +1_0.0, '') = ws1 @ sg @ body @ ws2
          \<and> list_all py_isspace ws1 \<and> list_all py_isspace ws2
          \<and> sg \<in> set [[], ''+'', ''-''] \<and> digit_run body
          \<and> length (filter is_digit body) \<le> int_max_str_digits
          \<and> - 100 = (if CHR ''-'' = CHR ''-'' then - 1 else 1)
                * ((if sg = ''-'' then - 1 else 1) * digits_value (filter is_digit body))"
      using s(1) b(1,2,3,4)
      by (intro exI [of _ "'' ''"] exI [of _ "''+''"] exI [of _ "''1_00''"]) simp
    with I [of "CHR ''-''" "'' +1_0.0, ''" "- 100"] a(1) show ?thesis by blast
  qed
  have bad: "parseAmount ''5+'' = Inl ValueError" "parseAmount ''5 5'' = Inl ValueError"
    "parseAmount ''1__0'' = Inl ValueError" "parseAmount ''+-5'' = Inl ValueError"
    by (simp_all add: parseAmount_def strip_separators_def py_int_def int_max_str_digits_def
          py_isspace_def is_digit_def Let_def)
  have "parseAmount ''0.07'' = Inr 7"
    using T [THEN conjunct2, THEN conjunct2, THEN conjunct2, THEN conjunct1, rule_format,
             of "CHR ''0''" "''.07''"] s b by simp
  moreover have "parseAmount ''12a,00'' = Inl ValueError"
    using T [THEN conjunct2, THEN conjunct2, THEN conjunct2, THEN conjunct2, THEN conjunct2,
             THEN conjunct1, rule_format, of "CHR ''1''" "CHR ''a''" "''2a,00''"] s a by simp
  ultimately show ?thesis using a s(1) b(1,2) ok bad by simp
qed

text \<open>
  Claim C6 as stated fails where the text left after stripping holds something that is
  not a digit and that \<open>int\<close> accepts: a plus sign, a space, an underscore.
\<close>

theorem parseAmount_cents_counterexample:
  "parseAmount ''+5'' = Inr 5 \<and> \<not> list_all is_digit (strip_separators ''+5'')
   \<and> parseAmount '' 5'' = Inr 5 \<and> \<not> list_all is_digit (strip_separators '' 5'')
   \<and> parseAmount ''1_0'' = Inr 10 \<and> \<not> list_all is_digit (strip_separators ''1_0'')"
  by (simp add: parseAmount_def strip_separators_def py_int_def int_max_str_digits_def
       py_isspace_def is_digit_def digits_value_def digit_val_def err_bind_def Let_def)

text \<open>
  Claim C7, as amended. \<open>formatAmount\<close> ends every amount other than zero with a space
  and the euro sign, which \<open>int\<close> rejects. For each of 1, -1, 99, 100, 12345 and -12345,
  \<open>parseAmount\<close> of the formatted text raises \<open>ValueError\<close>; on the formatted text
  without that ending it succeeds and gives the amount itself, with its sign.
\<close>

theorem formatAmount_round_trip:
  "\<forall>x\<in>set [1, - 1, 99, 100, 12345, - 12345].
     parseAmount (formatAmount x) = Inl ValueError
   \<and> (\<exists>s. formatAmount x = s @ '' '' @ euro \<and> parseAmount s = Inr x)"
proof -
  have f: "formatAmount 1 = '',1'' @ '' '' @ euro" "formatAmount (- 1) = '',-1'' @ '' '' @ euro"
    "formatAmount 99 = '',99'' @ '' '' @ euro" "formatAmount 100 = ''1,00'' @ '' '' @ euro"
    "formatAmount 12345 = ''123,45'' @ '' '' @ euro"
    "formatAmount (- 12345) = ''-123,45'' @ '' '' @ euro"
    by (simp_all add: formatAmount_def py_str_def Let_def)
  have p: "parseAmount '',1'' = Inr 1" "parseAmount '',-1'' = Inr (- 1)"
    "parseAmount '',99'' = Inr 99" "parseAmount ''1,00'' = Inr 100"
    "parseAmount ''123,45'' = Inr 12345" "parseAmount ''-123,45'' = Inr (- 12345)"
    by (simp_all add: parseAmount_def strip_separators_def py_int_def int_max_str_digits_def py_isspace_def is_digit_def
         digits_value_def digit_val_def err_bind_def Let_def)
  have e: "parseAmount (formatAmount x) = Inl ValueError"
    if "x \<in> set [1, - 1, 99, 100, 12345, - 12345]" for x
    using that
    by (auto simp: f) (simp_all add: parseAmount_def strip_separators_def py_int_def int_max_str_digits_def py_isspace_def
         is_digit_def euro_def err_bind_def Let_def)
  show ?thesis
    using f p e by (auto simp del: append.simps append_Cons)
qed

theorem formatAmount_round_trip_witness:
  "(- 12345 :: int) \<in> set [1, - 1, 99, 100, 12345, - 12345]
   \<and> formatAmount (- 12345) = ''-123,45'' @ '' '' @ euro
   \<and> parseAmount (formatAmount (- 12345)) = Inl ValueError
   \<and> parseAmount ''-123,45'' = Inr (- 12345)"
proof -
  have m: "(- 12345 :: int) \<in> set [1, - 1, 99, 100, 12345, - 12345]" by simp
  have f: "formatAmount (- 12345) = ''-123,45'' @ '' '' @ euro"
    by (simp add: formatAmount_def py_str_def Let_def)
  have p: "parseAmount ''-123,45'' = Inr (- 12345)"
    by (simp add: parseAmount_def strip_separators_def py_int_def int_max_str_digits_def py_isspace_def is_digit_def
         digits_value_def digit_val_def err_bind_def Let_def)
  from formatAmount_round_trip [THEN bspec, OF m] m f p show ?thesis by simp
qed

text \<open>
  Claim C7 as stated fails at every amount of the set: \<open>formatAmount 1\<close> is ",1" followed
  by a space and the euro sign, and parsing it raises \<open>ValueError\<close>; so does parsing the
  formatted -12345.
\<close>

theorem formatAmount_round_trip_counterexample:
  "formatAmount 1 = '',1 '' @ euro \<and> parseAmount (formatAmount 1) = Inl ValueError
   \<and> formatAmount (- 12345) = ''-123,45 '' @ euro
   \<and> parseAmount (formatAmount (- 12345)) = Inl ValueError"
  by (simp add: formatAmount_def py_str_def parseAmount_def strip_separators_def py_int_def int_max_str_digits_def
        py_isspace_def is_digit_def euro_def err_bind_def Let_def)

section \<open>Reading the ledger\<close>

lemma py_split_ne: "py_split c s \<noteq> []"
  by (induction s) (auto split: list.splits)

lemma py_split_empty_field: "py_split c s = [[]] \<longleftrightarrow> s = []"
  using py_split_ne [of c "tl s"] by (cases s) (auto split: list.splits)

lemma py_split_last_empty: "s \<noteq> [] \<Longrightarrow> last (py_split c s) = [] \<longleftrightarrow> last s = c"
proof (induction s)
  case Nil
  then show ?case by simp
next
  case (Cons x xs)
  show ?case
  proof (cases "xs = []")
    case True
    then show ?thesis by simp
  next
    case False
    with Cons.IH have ih: "last (py_split c xs) = [] \<longleftrightarrow> last xs = c" by simp
    obtain f fs where sp: "py_split c xs = f # fs"
      using py_split_ne [of c xs] by (cases "py_split c xs") auto
    show ?thesis
      using False ih sp py_split_empty_field [of c xs] by (cases "fs = []") auto
  qed
qed

lemma py_split_butlast:
  "s \<noteq> [] \<Longrightarrow>
   py_split c (butlast s) =
     (if last (py_split c s) = [] then butlast (py_split c s)
      else butlast (py_split c s) @ [butlast (last (py_split c s))])"
proof (induction s)
  case Nil
  then show ?case by simp
next
  case (Cons x xs)
  show ?case
  proof (cases "xs = []")
    case True
    then show ?thesis by simp
  next
    case False
    obtain f fs where sp: "py_split c xs = f # fs"
      using py_split_ne [of c xs] by (cases "py_split c xs") auto
    obtain g gs where sb: "py_split c (butlast xs) = g # gs"
      using py_split_ne [of c "butlast xs"] by (cases "py_split c (butlast xs)") auto
    from Cons.IH [OF False] sp sb False show ?thesis
      by (cases "fs = []") (auto split: if_splits)
  qed
qed

lemma parseLine_Inr_iff:
  "parseLine pd l = Inr t \<longleftrightarrow>
     (let d = py_split CHR '';'' (butlast l) in
        10 \<le> length d
      \<and> movement t = d ! 0 \<and> pd (d ! 1) = Inr (date t) \<and> info t = d ! 2
      \<and> parseAmount (d ! 3) = Inr (amount t) \<and> name t = d ! 4 \<and> event t = d ! 5
      \<and> concept t = d ! 6 \<and> advance t = parseAdvance (d ! 7) \<and> origin t = d ! 8
      \<and> comment t = d ! 9)"
  by (cases t) (auto simp: parseLine_def get_def err_bind_def Let_def split: sum.splits)

lemma parseLine_short:
  "length (py_split CHR '';'' (butlast l)) < 10 \<Longrightarrow> \<exists>e. parseLine pd l = Inl e"
  by (cases "parseLine pd l") (auto simp: parseLine_Inr_iff Let_def)

lemma parse_loop_uniq:
  "parse_loop pd (ts0, ns0) ls = Inr (ts, ns) \<longleftrightarrow>
     (\<exists>new. list_all2 (\<lambda>l t. parseLine pd l = Inr t) ls new
           \<and> ts = ts0 @ new \<and> ns = uniq_loop ns0 (map event new))"
proof (induction ls arbitrary: ts0 ns0)
  case Nil
  then show ?case by auto
next
  case (Cons l ls)
  show ?case
  proof (cases "parseLine pd l")
    case (Inl e)
    then show ?thesis by (auto simp: list_all2_Cons1)
  next
    case (Inr t)
    then show ?thesis
      by (simp add: Cons.IH list_all2_Cons1) (auto simp: list_all2_Cons1)
  qed
qed

lemma parse_loop_error:
  "parse_loop pd acc ls = Inl e \<longleftrightarrow>
     (\<exists>k<length ls. parseLine pd (ls ! k) = Inl e \<and> (\<forall>j<k. \<exists>t. parseLine pd (ls ! j) = Inr t))"
proof (induction ls arbitrary: acc)
  case Nil
  then show ?case by (cases acc) simp
next
  case (Cons l ls)
  obtain ts0 ns0 where acc: "acc = (ts0, ns0)" by (cases acc)
  show ?case
  proof (cases "parseLine pd l")
    case (Inl e')
    have "(\<exists>k<length (l # ls). parseLine pd ((l # ls) ! k) = Inl e
             \<and> (\<forall>j<k. \<exists>t. parseLine pd ((l # ls) ! j) = Inr t)) \<longleftrightarrow> e' = e"
    proof
      assume "\<exists>k<length (l # ls). parseLine pd ((l # ls) ! k) = Inl e
             \<and> (\<forall>j<k. \<exists>t. parseLine pd ((l # ls) ! j) = Inr t)"
      then obtain k where k: "parseLine pd ((l # ls) ! k) = Inl e"
        "\<forall>j<k. \<exists>t. parseLine pd ((l # ls) ! j) = Inr t" by blast
      have "k = 0"
      proof (rule ccontr)
        assume "k \<noteq> 0"
        then have "\<exists>t. parseLine pd ((l # ls) ! 0) = Inr t" using k(2) by blast
        with Inl show False by simp
      qed
      with k(1) Inl show "e' = e" by simp
    next
      assume "e' = e"
      with Inl have "parseLine pd ((l # ls) ! 0) = Inl e" by simp
      then show "\<exists>k<length (l # ls). parseLine pd ((l # ls) ! k) = Inl e
             \<and> (\<forall>j<k. \<exists>t. parseLine pd ((l # ls) ! j) = Inr t)"
        by (intro exI [of _ 0]) simp
    qed
    with Inl acc show ?thesis by simp
  next
    case (Inr t)
    have "(\<exists>k<length (l # ls). parseLine pd ((l # ls) ! k) = Inl e
             \<and> (\<forall>j<k. \<exists>t. parseLine pd ((l # ls) ! j) = Inr t)) \<longleftrightarrow>
          (\<exists>k<length ls. parseLine pd (ls ! k) = Inl e
             \<and> (\<forall>j<k. \<exists>t. parseLine pd (ls ! j) = Inr t))" (is "?L \<longleftrightarrow> ?R")
    proof
      assume ?L
      then obtain k where k: "k < length (l # ls)" "parseLine pd ((l # ls) ! k) = Inl e"
        "\<forall>j<k. \<exists>t. parseLine pd ((l # ls) ! j) = Inr t" by blast
      from k(2) Inr obtain k' where k': "k = Suc k'" by (cases k) auto
      have "\<forall>j<k'. \<exists>t. parseLine pd (ls ! j) = Inr t"
      proof (intro allI impI)
        fix j assume "j < k'"
        then have "Suc j < k" using k' by simp
        with k(3) have "\<exists>t. parseLine pd ((l # ls) ! Suc j) = Inr t" by blast
        then show "\<exists>t. parseLine pd (ls ! j) = Inr t" by simp
      qed
      with k k' show ?R by (intro exI [of _ k']) simp
    next
      assume ?R
      then obtain k where k: "k < length ls" "parseLine pd (ls ! k) = Inl e"
        "\<forall>j<k. \<exists>t. parseLine pd (ls ! j) = Inr t" by blast
      have "\<forall>j<Suc k. \<exists>t. parseLine pd ((l # ls) ! j) = Inr t"
      proof (intro allI impI)
        fix j assume j: "j < Suc k"
        show "\<exists>t. parseLine pd ((l # ls) ! j) = Inr t"
        proof (cases j)
          case 0
          with Inr show ?thesis by simp
        next
          case (Suc j')
          with j k(3) show ?thesis by simp
        qed
      qed
      with k show ?L by (intro exI [of _ "Suc k"]) simp
    qed
    with Inr acc Cons.IH show ?thesis by simp
  qed
qed

lemma parseLine_long:
  assumes "10 < length (py_split CHR '';'' l)" and "parseLine pd l = Inr t"
  shows "comment t = py_split CHR '';'' l ! 9"
proof -
  define fs where "fs = py_split CHR '';'' l"
  define d where "d = py_split CHR '';'' (butlast l)"
  have len: "10 < length fs" using assms(1) by (simp add: fs_def)
  then have ne: "l \<noteq> []" by (auto simp: fs_def)
  have dd: "d = (if last fs = [] then butlast fs else butlast fs @ [butlast (last fs)])"
    unfolding d_def fs_def by (rule py_split_butlast [OF ne])
  have b: "9 < length (butlast fs)" using len by simp
  then have "butlast fs ! 9 = fs ! 9" by (simp add: nth_butlast)
  with b have "d ! 9 = fs ! 9" by (simp add: dd nth_append)
  moreover have "comment t = d ! 9"
    using assms(2) by (simp add: parseLine_Inr_iff Let_def d_def)
  ultimately show ?thesis by (simp add: fs_def)
qed

lemma parseTransactions_Inr_iff:
  "parseTransactions pd (l1 # l2 # rest) = Inr (ts, ns) \<longleftrightarrow>
     list_all2 (\<lambda>l t. parseLine pd l = Inr t) rest ts \<and> ns = uniq_loop [] (map event ts)"
  by (simp add: parseTransactions_def parse_loop_uniq)

text \<open>
  Claim C2, as amended. On a file of fewer than two lines \<open>parseTransactions\<close> stops
  with \<open>StopIteration\<close>. Otherwise the first two lines are dropped whatever they hold,
  and the result is a success exactly when every later line parses; the transactions are
  then, in order, one per line, and the event names are the events of the transactions,
  each once, ordered by first occurrence. The result is the error \<open>e\<close> exactly when some
  line raises \<open>e\<close> and all lines before it parse, so no line is skipped. A line parses
  to a transaction exactly when its text without the last character has at least ten
  fields between semicolons, the second is accepted by the date parser and the fourth by
  \<open>parseAmount\<close>; the ten attributes are then the first ten fields in their order, and
  fields after the tenth are ignored. A line with fewer than ten fields raises an error.
\<close>

theorem parseTransactions_total:
  "(length inputFile < 2 \<longrightarrow> parseTransactions pd inputFile = Inl StopIteration)
   \<and> (\<forall>l1 l2 rest ts ns.
         parseTransactions pd (l1 # l2 # rest) = Inr (ts, ns) \<longleftrightarrow>
           list_all2 (\<lambda>l t. parseLine pd l = Inr t) rest ts
         \<and> distinct ns \<and> set ns = event ` set ts
         \<and> sorted_wrt (\<lambda>x y. first_index (map event ts) x < first_index (map event ts) y) ns)
   \<and> (\<forall>l1 l2 rest e.
         parseTransactions pd (l1 # l2 # rest) = Inl e \<longleftrightarrow>
           (\<exists>k<length rest. parseLine pd (rest ! k) = Inl e
              \<and> (\<forall>j<k. \<exists>t. parseLine pd (rest ! j) = Inr t)))
   \<and> (\<forall>l t. parseLine pd l = Inr t \<longleftrightarrow>
         (let d = py_split CHR '';'' (butlast l) in
            10 \<le> length d
          \<and> movement t = d ! 0 \<and> pd (d ! 1) = Inr (date t) \<and> info t = d ! 2
          \<and> parseAmount (d ! 3) = Inr (amount t) \<and> name t = d ! 4 \<and> event t = d ! 5
          \<and> concept t = d ! 6 \<and> advance t = (d ! 7 = ''Y'') \<and> origin t = d ! 8
          \<and> comment t = d ! 9))
   \<and> (\<forall>l. length (py_split CHR '';'' (butlast l)) < 10 \<longrightarrow> (\<exists>e. parseLine pd l = Inl e))"
proof -
  have a: "length inputFile < 2 \<longrightarrow> parseTransactions pd inputFile = Inl StopIteration"
    by (cases inputFile; cases "tl inputFile") (auto simp: parseTransactions_def)
  have b: "parseTransactions pd (l1 # l2 # rest) = Inr (ts, ns) \<longleftrightarrow>
           list_all2 (\<lambda>l t. parseLine pd l = Inr t) rest ts
         \<and> distinct ns \<and> set ns = event ` set ts
         \<and> sorted_wrt (\<lambda>x y. first_index (map event ts) x < first_index (map event ts) y) ns"
    (is "?L \<longleftrightarrow> ?R") for l1 l2 rest ts ns
  proof
    assume ?L
    then show ?R
      using uniq_loop_first_occurrence [of "map event ts"]
      by (simp add: parseTransactions_Inr_iff)
  next
    assume r: ?R
    have "ns = uniq_loop [] (map event ts)"
      using r uniq_loop_first_occurrence [of "map event ts"]
      by (intro sorted_key_unique [of "first_index (map event ts)"]) simp_all
    with r show ?L by (simp add: parseTransactions_Inr_iff)
  qed
  have c: "parseTransactions pd (l1 # l2 # rest) = Inl e \<longleftrightarrow>
           (\<exists>k<length rest. parseLine pd (rest ! k) = Inl e
              \<and> (\<forall>j<k. \<exists>t. parseLine pd (rest ! j) = Inr t))" for l1 l2 rest e
    by (simp add: parseTransactions_def parse_loop_error)
  have d: "\<forall>l. length (py_split CHR '';'' (butlast l)) < 10 \<longrightarrow> (\<exists>e. parseLine pd l = Inl e)"
    by (simp add: parseLine_short)
  from a b c d show ?thesis
    by (simp add: parseLine_Inr_iff parseAdvance_def del: list_all2_Cons1 list_all2_Cons2)
qed

theorem parseTransactions_total_witness:
  "length (take 1 sample_file) < 2
   \<and> parseTransactions sample_date (take 1 sample_file) = Inl StopIteration
   \<and> parseTransactions sample_date sample_file =
       Inr ([\<lparr>movement = ''m1'', date = 0, info = ''i'', amount = - 1200, name = ''n'',
              event = ''Gala'', concept = ''food'', advance = True, origin = ''CAIXA'',
              comment = ''first''\<rparr>,
            \<lparr>movement = ''m2'', date = 0, info = ''i'', amount = 500, name = ''n'',
              event = ''Trip'', concept = ''bus'', advance = False, origin = ''PAYPAL'',
              comment = ''second''\<rparr>,
            \<lparr>movement = ''m3'', date = 0, info = ''i'', amount = 100, name = ''n'',
              event = ''Gala'', concept = ''music'', advance = False, origin = ''CAIXA'',
              comment = ''las''\<rparr>],
           [''Gala'', ''Trip''])
   \<and> length (py_split CHR '';'' (butlast ''m1;01/02/2020;i'')) < 10
   \<and> parseLine sample_date ''m1;01/02/2020;i'' = Inl IndexError"
proof -
  have p: "parseAmount ''-12,00'' = Inr (- 1200)" "parseAmount ''5,00'' = Inr 500"
    "parseAmount ''1,00'' = Inr 100"
    by (simp_all add: parseAmount_def strip_separators_def py_int_def int_max_str_digits_def py_isspace_def is_digit_def
         digits_value_def digit_val_def err_bind_def Let_def)
  have f: "parseTransactions sample_date sample_file =
       Inr ([\<lparr>movement = ''m1'', date = 0, info = ''i'', amount = - 1200, name = ''n'',
              event = ''Gala'', concept = ''food'', advance = True, origin = ''CAIXA'',
              comment = ''first''\<rparr>,
            \<lparr>movement = ''m2'', date = 0, info = ''i'', amount = 500, name = ''n'',
              event = ''Trip'', concept = ''bus'', advance = False, origin = ''PAYPAL'',
              comment = ''second''\<rparr>,
            \<lparr>movement = ''m3'', date = 0, info = ''i'', amount = 100, name = ''n'',
              event = ''Gala'', concept = ''music'', advance = False, origin = ''CAIXA'',
              comment = ''las''\<rparr>],
           [''Gala'', ''Trip''])"
    by (simp add: parseTransactions_def sample_file_def parseLine_def get_def err_bind_def
          sample_date_def parseAdvance_def p Let_def)
  have s: "parseLine sample_date ''m1;01/02/2020;i'' = Inl IndexError"
    by (simp add: parseLine_def get_def err_bind_def sample_date_def Let_def)
  show ?thesis
    using parseTransactions_total [of "take 1 sample_file" sample_date] f s
    by (simp add: sample_file_def)
qed

text \<open>
  Claim C2 as stated fails for a line of more than ten fields: it is neither split into
  exactly ten fields nor rejected. A line of twelve fields gives one transaction, made of
  its first ten fields.
\<close>

theorem parseTransactions_total_counterexample:
  "length (py_split CHR '';''
     (butlast (''m1;01/02/2020;i;-12,00;n;Gala;food;Y;CAIXA;c;extra;more'' @ [CHR 0x0A]))) = 12
   \<and> parseLine sample_date (''m1;01/02/2020;i;-12,00;n;Gala;food;Y;CAIXA;c;extra;more'' @ [CHR 0x0A]) =
       Inr \<lparr>movement = ''m1'', date = 0, info = ''i'', amount = - 1200, name = ''n'',
            event = ''Gala'', concept = ''food'', advance = True, origin = ''CAIXA'',
            comment = ''c''\<rparr>
   \<and> parseTransactions sample_date
         [''header'' @ [CHR 0x0A], ''header'' @ [CHR 0x0A],
          ''m1;01/02/2020;i;-12,00;n;Gala;food;Y;CAIXA;c;extra;more'' @ [CHR 0x0A]] =
       Inr ([\<lparr>movement = ''m1'', date = 0, info = ''i'', amount = - 1200, name = ''n'',
              event = ''Gala'', concept = ''food'', advance = True, origin = ''CAIXA'',
              comment = ''c''\<rparr>], [''Gala''])"
proof -
  have p: "parseAmount ''-12,00'' = Inr (- 1200)"
    by (simp add: parseAmount_def strip_separators_def py_int_def int_max_str_digits_def py_isspace_def is_digit_def
         digits_value_def digit_val_def err_bind_def Let_def)
  show ?thesis
    by (simp add: parseTransactions_def parseLine_def get_def err_bind_def sample_date_def
          parseAdvance_def p Let_def)
qed

text \<open>
  Claim C10, as amended. The last character of a line is removed before the split,
  whether it is a newline or not. For every line of exactly ten fields that parses, alone
  or as a line of the file read by \<open>parseTransactions\<close>, the comment is the tenth field
  without its last character, and the other text attributes are the fields of the line
  as they are; this holds in particular for a line that does not end in a newline, whose
  comment so loses a character of its own. When the tenth field is empty the cut removes
  the last semicolon, nine fields are left and the line raises an error. On a line of
  more than ten fields the cut falls in a later field and the comment is the whole tenth
  field.
\<close>

theorem parseLine_drops_last_character:
  "(\<forall>l1 l2 rest ts ns k.
       parseTransactions pd (l1 # l2 # rest) = Inr (ts, ns) \<and> k < length rest
       \<and> length (py_split CHR '';'' (rest ! k)) = 10 \<longrightarrow>
          comment (ts ! k) = butlast (py_split CHR '';'' (rest ! k) ! 9))
   \<and> (\<forall>l t. length (py_split CHR '';'' l) = 10 \<and> parseLine pd l = Inr t \<longrightarrow>
          comment t = butlast (py_split CHR '';'' l ! 9)
        \<and> movement t = py_split CHR '';'' l ! 0 \<and> info t = py_split CHR '';'' l ! 2
        \<and> name t = py_split CHR '';'' l ! 4 \<and> event t = py_split CHR '';'' l ! 5
        \<and> concept t = py_split CHR '';'' l ! 6 \<and> origin t = py_split CHR '';'' l ! 8)
   \<and> (\<forall>l. length (py_split CHR '';'' l) = 10 \<and> py_split CHR '';'' l ! 9 = [] \<longrightarrow>
          (\<exists>e. parseLine pd l = Inl e))
   \<and> (\<forall>l t. 10 < length (py_split CHR '';'' l) \<and> parseLine pd l = Inr t \<longrightarrow>
          comment t = py_split CHR '';'' l ! 9)"
proof -
  have A: "\<exists>e. parseLine pd l = Inl e"
    if a: "length (py_split CHR '';'' l) = 10 \<and> py_split CHR '';'' l ! 9 = []" for l
  proof -
  from a have ne: "l \<noteq> []" by auto
  have "last (py_split CHR '';'' l) = []"
    using a by (simp add: last_conv_nth py_split_ne)
  then have "py_split CHR '';'' (butlast l) = butlast (py_split CHR '';'' l)"
    using py_split_butlast [OF ne, of "CHR '';''"] by simp
  then have "length (py_split CHR '';'' (butlast l)) < 10" using a by simp
  then show "\<exists>e. parseLine pd l = Inl e" by (rule parseLine_short)
  qed
  have B: "comment t = butlast (py_split CHR '';'' l ! 9)
        \<and> movement t = py_split CHR '';'' l ! 0 \<and> info t = py_split CHR '';'' l ! 2
        \<and> name t = py_split CHR '';'' l ! 4 \<and> event t = py_split CHR '';'' l ! 5
        \<and> concept t = py_split CHR '';'' l ! 6 \<and> origin t = py_split CHR '';'' l ! 8"
    if a: "length (py_split CHR '';'' l) = 10 \<and> parseLine pd l = Inr t" for l t
  proof -
  define fs where "fs = py_split CHR '';'' l"
  define d where "d = py_split CHR '';'' (butlast l)"
  have len: "length fs = 10" using a by (simp add: fs_def)
  then have ne: "l \<noteq> []" by (auto simp: fs_def)
  have la: "last fs = fs ! 9" using len by (cases fs rule: rev_cases) (auto simp: nth_append)
  have t: "10 \<le> length d" "movement t = d ! 0" "info t = d ! 2" "name t = d ! 4"
    "event t = d ! 5" "concept t = d ! 6" "origin t = d ! 8" "comment t = d ! 9"
    using a by (simp_all add: parseLine_Inr_iff Let_def d_def)
  have dd: "d = (if last fs = [] then butlast fs else butlast fs @ [butlast (last fs)])"
    unfolding d_def fs_def by (rule py_split_butlast [OF ne])
  have full: "d = butlast fs @ [butlast (fs ! 9)]"
  proof (cases "last fs = []")
    case True
    with dd len have "length d = 9" by simp
    with t(1) show ?thesis by simp
  next
    case False
    with dd la show ?thesis by simp
  qed
  have k: "k < 9 \<Longrightarrow> d ! k = fs ! k" for k
    using len by (simp add: full nth_append nth_butlast)
  have k9: "d ! 9 = butlast (fs ! 9)"
    using len by (simp add: full nth_append)
  show ?thesis
    using t k9 k [of 0] k [of 2] k [of 4] k [of 5] k [of 6] k [of 8]
    by (simp add: fs_def [symmetric])
  qed
  have C: "comment (ts ! k) = butlast (py_split CHR '';'' (rest ! k) ! 9)"
    if c: "parseTransactions pd (l1 # l2 # rest) = Inr (ts, ns) \<and> k < length rest
           \<and> length (py_split CHR '';'' (rest ! k)) = 10" for l1 l2 rest ts ns k
  proof -
    from c have "list_all2 (\<lambda>l t. parseLine pd l = Inr t) rest ts"
      by (simp add: parseTransactions_Inr_iff)
    moreover from c have "k < length rest" by simp
    ultimately have "parseLine pd (rest ! k) = Inr (ts ! k)"
      by (rule list_all2_nthD)
    with c B [of "rest ! k" "ts ! k"] show ?thesis by simp
  qed
  have D: "comment t = py_split CHR '';'' l ! 9"
    if "10 < length (py_split CHR '';'' l) \<and> parseLine pd l = Inr t" for l t
    using that parseLine_long [of l pd t] by blast
  from A B C D show ?thesis by blast
qed

theorem parseLine_drops_last_character_witness:
  "length (py_split CHR '';'' ''m3;03/02/2020;i;1,00;n;Gala;music;N;CAIXA;last'') = 10
   \<and> py_split CHR '';'' ''m3;03/02/2020;i;1,00;n;Gala;music;N;CAIXA;last'' ! 9 = ''last''
   \<and> parseLine sample_date ''m3;03/02/2020;i;1,00;n;Gala;music;N;CAIXA;last'' =
       Inr \<lparr>movement = ''m3'', date = 0, info = ''i'', amount = 100, name = ''n'',
            event = ''Gala'', concept = ''music'', advance = False, origin = ''CAIXA'',
            comment = ''las''\<rparr>
   \<and> length (py_split CHR '';'' ''m3;03/02/2020;i;1,00;n;Gala;music;N;CAIXA;'') = 10
   \<and> py_split CHR '';'' ''m3;03/02/2020;i;1,00;n;Gala;music;N;CAIXA;'' ! 9 = []
   \<and> parseLine sample_date ''m3;03/02/2020;i;1,00;n;Gala;music;N;CAIXA;'' = Inl IndexError"
proof -
  have p: "parseAmount ''1,00'' = Inr 100"
    by (simp add: parseAmount_def strip_separators_def py_int_def int_max_str_digits_def py_isspace_def is_digit_def
         digits_value_def digit_val_def err_bind_def Let_def)
  have a: "parseLine sample_date ''m3;03/02/2020;i;1,00;n;Gala;music;N;CAIXA;last'' =
       Inr \<lparr>movement = ''m3'', date = 0, info = ''i'', amount = 100, name = ''n'',
            event = ''Gala'', concept = ''music'', advance = False, origin = ''CAIXA'',
            comment = ''las''\<rparr>"
    by (simp add: parseLine_def get_def err_bind_def sample_date_def parseAdvance_def p Let_def)
  have b: "parseLine sample_date ''m3;03/02/2020;i;1,00;n;Gala;music;N;CAIXA;'' = Inl IndexError"
    by (simp add: parseLine_def get_def err_bind_def sample_date_def parseAdvance_def p Let_def)
  show ?thesis
    using parseLine_drops_last_character [of sample_date, THEN conjunct2, THEN conjunct1] a b
    parseLine_drops_last_character [of sample_date, THEN conjunct2, THEN conjunct2, THEN conjunct1]
    by simp
qed

text \<open>
  Claim C10 as stated fails for a line of more than ten fields without a newline: the
  comment of the line below is its tenth field "last", with no character deleted.
\<close>

theorem parseLine_drops_last_character_counterexample:
  "py_split CHR '';'' ''m3;03/02/2020;i;1,00;n;Gala;music;N;CAIXA;last;x'' ! 9 = ''last''
   \<and> parseLine sample_date ''m3;03/02/2020;i;1,00;n;Gala;music;N;CAIXA;last;x'' =
       Inr \<lparr>movement = ''m3'', date = 0, info = ''i'', amount = 100, name = ''n'',
            event = ''Gala'', concept = ''music'', advance = False, origin = ''CAIXA'',
            comment = ''last''\<rparr>
   \<and> butlast ''last'' = ''las''"
proof -
  have p: "parseAmount ''1,00'' = Inr 100"
    by (simp add: parseAmount_def strip_separators_def py_int_def int_max_str_digits_def py_isspace_def is_digit_def
         digits_value_def digit_val_def err_bind_def Let_def)
  show ?thesis
    by (simp add: parseLine_def get_def err_bind_def sample_date_def parseAdvance_def p Let_def)
qed

section \<open>The summary sheet\<close>

lemma digit_at: "d < 10 \<Longrightarrow> digit_val (''0123456789'' ! d) = int d"
proof -
  assume "d < 10"
  then have "d \<in> {0, 1, 2, 3, 4, 5, 6, 7, 8, 9}" by auto
  then show ?thesis by (auto simp: digit_val_def)
qed

lemma digits_value_snoc: "digits_value (ds @ [c]) = 10 * digits_value ds + digit_val c"
  by (simp add: digits_value_def)

lemma digits_value_digits_of: "digits_value (digits_of n) = int n"
proof (induction n rule: digits_of.induct)
  case (1 n)
  show ?case
  proof (cases "n < 10")
    case True
    then show ?thesis
      using digits_value_snoc [of "[]" "''0123456789'' ! n"]
      by (subst digits_of.simps) (simp add: digit_at digits_value_def del: digits_of.simps)
  next
    case False
    with 1 have "digits_value (digits_of (n div 10)) = int (n div 10)"
      by (simp del: digits_of.simps)
    moreover have "10 * int (n div 10) + int (n mod 10) = int n" by presburger
    ultimately show ?thesis
      using False
      by (subst digits_of.simps) (simp add: digits_value_snoc digit_at del: digits_of.simps)
  qed
qed

lemma digits_of_inj: "digits_of m = digits_of n \<Longrightarrow> m = n"
  by (metis digits_value_digits_of of_nat_eq_iff)

lemma py_str_nat: "py_str (int i) = digits_of i"
  by (simp add: py_str_def del: digits_of.simps)

lemma cell_eq_iff: "cell c i = cell d j \<longleftrightarrow> c = d \<and> i = j"
  unfolding cell_def py_str_nat using digits_of_inj [of i j] by blast

lemma event_rows_props:
  assumes "set es \<subseteq> dom balances"
  shows "\<exists>st'. event_rows sel balances es st = Inr st'
     \<and> row st' = row st + length (filter sel es)
     \<and> totalCaixa st' = totalCaixa st + sum_in CHR ''B'' balances (filter sel es)
     \<and> totalPaypal st' = totalPaypal st + sum_in CHR ''C'' balances (filter sel es)
     \<and> grandTotal st' = grandTotal st + sum_in CHR ''D'' balances (filter sel es)
     \<and> (\<forall>c r. sheet st' (cell c r) =
           (if row st \<le> r \<and> r < row st + length (filter sel es) \<and> c \<in> set ''ABCD''
            then Some (row_text c balances (filter sel es ! (r - row st)))
            else sheet st (cell c r)))"
  using assms
proof (induction es arbitrary: st)
  case Nil
  then show ?case by (auto simp: sum_in_def)
next
  case (Cons e es)
  then have es: "set es \<subseteq> dom balances" and e: "e \<in> dom balances" by auto
  show ?case
  proof (cases "sel e")
    case False
    then have f: "filter sel (e # es) = filter sel es"
      and ev: "event_rows sel balances (e # es) st = event_rows sel balances es st"
      by simp_all
    show ?thesis unfolding f ev by (rule Cons.IH [OF es])
  next
    case True
    from e obtain b where b: "balances e = Some b" by auto
    define st1 where "st1 =
       \<lparr>row = row st + 1,
        totalCaixa = totalCaixa st + grossBalance (caixaGross b),
        totalPaypal = totalPaypal st + grossBalance (paypalGross b),
        grandTotal = grandTotal st + totalGrossBalance b,
        sheet = (sheet st)
          (cell CHR ''A'' (row st) \<mapsto> e,
           cell CHR ''B'' (row st) \<mapsto> formatAmount (grossBalance (caixaGross b)),
           cell CHR ''C'' (row st) \<mapsto> formatAmount (grossBalance (paypalGross b)),
           cell CHR ''D'' (row st) \<mapsto> formatAmount (totalGrossBalance b))\<rparr>"
    have w: "write_event_row balances e st = Inr st1"
      by (simp add: write_event_row_def b st1_def)
    from Cons.IH [OF es, of st1] obtain st' where all:
      "event_rows sel balances es st1 = Inr st'
       \<and> row st' = row st1 + length (filter sel es)
       \<and> totalCaixa st' = totalCaixa st1 + sum_in CHR ''B'' balances (filter sel es)
       \<and> totalPaypal st' = totalPaypal st1 + sum_in CHR ''C'' balances (filter sel es)
       \<and> grandTotal st' = grandTotal st1 + sum_in CHR ''D'' balances (filter sel es)
       \<and> (\<forall>c r. sheet st' (cell c r) =
           (if row st1 \<le> r \<and> r < row st1 + length (filter sel es) \<and> c \<in> set ''ABCD''
            then Some (row_text c balances (filter sel es ! (r - row st1)))
            else sheet st1 (cell c r)))"
      by (elim exE)
    note c2 = all [THEN conjunct2]
    note c3 = c2 [THEN conjunct2]
    note c4 = c3 [THEN conjunct2]
    note c5 = c4 [THEN conjunct2]
    note st' = all [THEN conjunct1] c2 [THEN conjunct1] c3 [THEN conjunct1]
      c4 [THEN conjunct1] c5 [THEN conjunct1] c5 [THEN conjunct2, rule_format]
    have r1: "row st1 = row st + 1" by (simp add: st1_def)
    have s0: "sheet st1 (cell c r) =
        (if c = CHR ''D'' \<and> r = row st then Some (formatAmount (totalGrossBalance b))
         else if c = CHR ''C'' \<and> r = row st then Some (formatAmount (grossBalance (paypalGross b)))
         else if c = CHR ''B'' \<and> r = row st then Some (formatAmount (grossBalance (caixaGross b)))
         else if c = CHR ''A'' \<and> r = row st then Some e
         else sheet st (cell c r))" for c r
      by (simp add: st1_def cell_eq_iff)
    have rt: "row_text CHR ''A'' balances e = e"
      "row_text CHR ''B'' balances e = formatAmount (grossBalance (caixaGross b))"
      "row_text CHR ''C'' balances e = formatAmount (grossBalance (paypalGross b))"
      "row_text CHR ''D'' balances e = formatAmount (totalGrossBalance b)"
      by (simp_all add: row_text_def balance_in_def b)
    have s1: "sheet st1 (cell c r) =
        (if r = row st \<and> c \<in> set ''ABCD'' then Some (row_text c balances e)
         else sheet st (cell c r))" for c r
    proof (cases "r = row st \<and> c \<in> set ''ABCD''")
      case True
      then have "c = CHR ''A'' \<or> c = CHR ''B'' \<or> c = CHR ''C'' \<or> c = CHR ''D''"
        by simp
      then show ?thesis using True rt by (auto simp: s0)
    next
      case False
      show ?thesis
      proof (cases "r = row st")
        case True
        with False have "c \<noteq> CHR ''A''" "c \<noteq> CHR ''B''" "c \<noteq> CHR ''C''" "c \<noteq> CHR ''D''"
          by simp_all
        with False show ?thesis by (simp add: s0)
      next
        case False
        then show ?thesis by (simp add: s0)
      qed
    qed
    have cells: "sheet st' (cell c r) =
           (if row st \<le> r \<and> r < row st + length (filter sel (e # es)) \<and> c \<in> set ''ABCD''
            then Some (row_text c balances (filter sel (e # es) ! (r - row st)))
            else sheet st (cell c r))" for c r
    proof -
      define Q where "Q = (c \<in> set ''ABCD'')"
      note a = st'(6) [of c r, folded Q_def] and b' = s1 [of c r, folded Q_def]
      have fe: "filter sel (e # es) = e # filter sel es" using \<open>sel e\<close> by simp
      have "sheet st' (cell c r) =
           (if row st \<le> r \<and> r < row st + length (e # filter sel es) \<and> Q
            then Some (row_text c balances ((e # filter sel es) ! (r - row st)))
            else sheet st (cell c r))"
      proof (cases "r = row st")
        case True
        then show ?thesis using a b' by (simp add: r1)
      next
        case False
        show ?thesis
        proof (cases "row st \<le> r")
          case True
          with False have "r - row st = Suc (r - (row st + 1))" by simp
          then have "(e # filter sel es) ! (r - row st) = filter sel es ! (r - (row st + 1))"
            by simp
          with True False a b' show ?thesis by (simp add: r1)
        next
          case False
          with a b' show ?thesis by (simp add: r1)
        qed
      qed
      then show ?thesis unfolding fe Q_def .
    qed
    have fe: "filter sel (e # es) = e # filter sel es" using True by simp
    have bal: "balance_in CHR ''B'' balances e = grossBalance (caixaGross b)"
      "balance_in CHR ''C'' balances e = grossBalance (paypalGross b)"
      "balance_in CHR ''D'' balances e = totalGrossBalance b"
      by (simp_all add: balance_in_def b)
    have t: "totalCaixa st' = totalCaixa st + sum_in CHR ''B'' balances (filter sel (e # es))"
      "totalPaypal st' = totalPaypal st + sum_in CHR ''C'' balances (filter sel (e # es))"
      "grandTotal st' = grandTotal st + sum_in CHR ''D'' balances (filter sel (e # es))"
      unfolding fe by (simp_all add: st'(3,4,5) sum_in_def bal st1_def)
    have r: "row st' = row st + length (filter sel (e # es))"
      using True by (simp add: st'(2) r1)
    have ev: "event_rows sel balances (e # es) st = Inr st'"
      using True by (simp add: w err_bind_def st'(1))
    show ?thesis
      by (intro exI [of _ st'] conjI allI) (rule ev r t cells)+
  qed
qed

lemma event_rows_added:
  assumes "set es \<subseteq> dom balances"
  shows "\<exists>st'. event_rows sel balances es st = Inr st' \<and> rows_added balances (filter sel es) st st'"
  using event_rows_props [OF assms, of sel st] unfolding rows_added_def .

lemma rows_addedD:
  assumes "rows_added balances es st st'"
  shows "row st' = row st + length es"
    and "totalCaixa st' = totalCaixa st + sum_in CHR ''B'' balances es"
    and "totalPaypal st' = totalPaypal st + sum_in CHR ''C'' balances es"
    and "grandTotal st' = grandTotal st + sum_in CHR ''D'' balances es"
    and "sheet st' (cell c r) =
            (if row st \<le> r \<and> r < row st + length es \<and> c \<in> set ''ABCD''
             then Some (row_text c balances (es ! (r - row st)))
             else sheet st (cell c r))"
  using assms unfolding rows_added_def by simp_all

lemma header_row_simps:
  "row (header_row label st) = row st + 3"
  "totalCaixa (header_row label st) = totalCaixa st"
  "totalPaypal (header_row label st) = totalPaypal st"
  "grandTotal (header_row label st) = grandTotal st"
  "sheet (header_row label st) (cell c r) =
     (if c = CHR ''A'' \<and> r = row st + 2 then Some label else sheet st (cell c r))"
  by (simp_all add: header_row_def cell_eq_iff)

lemma totals_row_simps:
  "row (totals_row label st) = row st + 2"
  "totalCaixa (totals_row label st) = totalCaixa st"
  "totalPaypal (totals_row label st) = totalPaypal st"
  "grandTotal (totals_row label st) = grandTotal st"
  "sheet (totals_row label st) (cell c r) =
     (if c = CHR ''D'' \<and> r = row st + 2 then Some (formatAmount (grandTotal st))
      else if c = CHR ''C'' \<and> r = row st + 2 then Some (formatAmount (totalPaypal st))
      else if c = CHR ''B'' \<and> r = row st + 2 then Some (formatAmount (totalCaixa st))
      else if c = CHR ''A'' \<and> r = row st + 2 then Some label
      else sheet st (cell c r))"
  by (simp_all add: totals_row_def cell_eq_iff)

lemma liquidity_rows_below:
  "r < row st + 4 \<Longrightarrow>
   sheet (liquidity_rows initialBank finalBank initialPaypal finalPaypal st) (cell c r) =
   sheet st (cell c r)"
  by (simp add: liquidity_rows_def cell_eq_iff)

lemma sum_in_append: "sum_in c balances (xs @ ys) = sum_in c balances xs + sum_in c balances ys"
  by (simp add: sum_in_def)

lemma writeEvents_rows:
  assumes "set eventNames \<subseteq> dom balances"
  shows "\<exists>sh. writeEvents eventNames balances sheet0 taxNames grantNames
                initialBank finalBank initialPaypal finalPaypal = Inr sh
     \<and> (\<forall>k c. k < length (ordinary_events taxNames grantNames eventNames) \<and> c \<in> set ''ABCD'' \<longrightarrow>
           sh (cell c (2 + k)) =
             Some (row_text c balances (ordinary_events taxNames grantNames eventNames ! k)))
     \<and> sh (cell CHR ''A'' (4 + length (ordinary_events taxNames grantNames eventNames))) =
           Some ''Grants''
     \<and> (\<forall>k c. k < length (grant_events grantNames eventNames) \<and> c \<in> set ''ABCD'' \<longrightarrow>
           sh (cell c (5 + length (ordinary_events taxNames grantNames eventNames) + k)) =
             Some (row_text c balances (grant_events grantNames eventNames ! k)))
     \<and> sh (cell CHR ''A'' (gross_total_row taxNames grantNames eventNames)) = Some ''Gross Total''
     \<and> (\<forall>c. c \<in> set ''BCD'' \<longrightarrow>
           sh (cell c (gross_total_row taxNames grantNames eventNames)) =
             Some (formatAmount (sum_in c balances
               (ordinary_events taxNames grantNames eventNames @
                grant_events grantNames eventNames))))
     \<and> sh (cell CHR ''A'' (gross_total_row taxNames grantNames eventNames + 2)) = Some ''Taxes''
     \<and> (\<forall>k c. k < length (tax_events taxNames eventNames) \<and> c \<in> set ''ABCD'' \<longrightarrow>
           sh (cell c (gross_total_row taxNames grantNames eventNames + 3 + k)) =
             Some (row_text c balances (tax_events taxNames eventNames ! k)))
     \<and> sh (cell CHR ''A'' (net_total_row taxNames grantNames eventNames)) = Some ''Net Total''
     \<and> (\<forall>c. c \<in> set ''BCD'' \<longrightarrow>
           sh (cell c (net_total_row taxNames grantNames eventNames)) =
             Some (formatAmount (sum_in c balances
               (ordinary_events taxNames grantNames eventNames @
                grant_events grantNames eventNames @
                tax_events taxNames eventNames))))"
proof -
  define os where "os = ordinary_events taxNames grantNames eventNames"
  define gs where "gs = grant_events grantNames eventNames"
  define ts where "ts = tax_events taxNames eventNames"
  define g where "g = gross_total_row taxNames grantNames eventNames"
  define n where "n = net_total_row taxNames grantNames eventNames"
  have g: "g = 7 + length os + length gs" and n: "n = g + 5 + length ts"
    by (simp_all add: g_def n_def gross_total_row_def net_total_row_def os_def gs_def ts_def)
  define st0 where "st0 =
     \<lparr>row = 2, totalCaixa = 0, totalPaypal = 0, grandTotal = 0,
      sheet = sheet0(''A1'' \<mapsto> ''Events'', ''B1'' \<mapsto> ''Caixa'',
                     ''C1'' \<mapsto> ''Paypal'', ''D1'' \<mapsto> ''Total'')\<rparr>"
  have r0: "row st0 = 2" and t0: "totalCaixa st0 = 0" "totalPaypal st0 = 0" "grandTotal st0 = 0"
    by (simp_all add: st0_def)
  obtain st1 where e1:
    "event_rows (\<lambda>e. e \<notin> set taxNames \<and> e \<notin> set grantNames) balances eventNames st0 = Inr st1"
    and a1: "rows_added balances os st0 st1"
    using event_rows_added [OF assms, of "\<lambda>e. e \<notin> set taxNames \<and> e \<notin> set grantNames" st0]
    unfolding os_def ordinary_events_def by blast
  note st1 = e1 rows_addedD [OF a1]
  define h1 where "h1 = header_row ''Grants'' st1"
  obtain st2 where e2:
    "event_rows (\<lambda>e. e \<in> set grantNames) balances eventNames h1 = Inr st2"
    and a2: "rows_added balances gs h1 st2"
    using event_rows_added [OF assms, of "\<lambda>e. e \<in> set grantNames" h1]
    unfolding gs_def grant_events_def by blast
  note st2 = e2 rows_addedD [OF a2]
  define g1 where "g1 = totals_row ''Gross Total'' st2"
  define h2 where "h2 = header_row ''Taxes'' g1"
  obtain st3 where e3:
    "event_rows (\<lambda>e. e \<in> set taxNames) balances eventNames h2 = Inr st3"
    and a3: "rows_added balances ts h2 st3"
    using event_rows_added [OF assms, of "\<lambda>e. e \<in> set taxNames" h2]
    unfolding ts_def tax_events_def by blast
  note st3 = e3 rows_addedD [OF a3]
  define n1 where "n1 = totals_row ''Net Total'' st3"
  define sh where "sh = sheet (liquidity_rows initialBank finalBank initialPaypal finalPaypal n1)"
  have w: "writeEvents eventNames balances sheet0 taxNames grantNames
             initialBank finalBank initialPaypal finalPaypal = Inr sh"
    unfolding writeEvents_def Let_def st0_def [symmetric]
    by (simp add: err_bind_def st1(1) h1_def [symmetric] st2(1) g1_def [symmetric]
          h2_def [symmetric] st3(1) n1_def [symmetric] sh_def)
  have r1: "row st1 = 2 + length os" by (simp add: st1(2) r0)
  have rh1: "row h1 = 5 + length os" by (simp add: h1_def header_row_simps r1)
  have r2: "row st2 = 5 + length os + length gs" by (simp add: st2(2) rh1)
  have rg1: "row g1 = g" by (simp add: g1_def totals_row_simps r2 g)
  have rh2: "row h2 = g + 3" by (simp add: h2_def header_row_simps rg1)
  have r3: "row st3 = g + 3 + length ts" by (simp add: st3(2) rh2)
  have rn1: "row n1 = n" by (simp add: n1_def totals_row_simps r3 n)
  have tot2: "totalCaixa st2 = sum_in CHR ''B'' balances (os @ gs)"
    "totalPaypal st2 = sum_in CHR ''C'' balances (os @ gs)"
    "grandTotal st2 = sum_in CHR ''D'' balances (os @ gs)"
    by (simp_all add: st2(3,4,5) h1_def header_row_simps st1(3,4,5) t0 sum_in_append)
  have tot3: "totalCaixa st3 = sum_in CHR ''B'' balances (os @ gs @ ts)"
    "totalPaypal st3 = sum_in CHR ''C'' balances (os @ gs @ ts)"
    "grandTotal st3 = sum_in CHR ''D'' balances (os @ gs @ ts)"
    by (simp_all add: st3(3,4,5) h2_def g1_def header_row_simps totals_row_simps tot2 sum_in_append)
  have F0: "r \<le> n \<Longrightarrow> sh (cell c r) = sheet n1 (cell c r)" for c r
    unfolding sh_def by (rule liquidity_rows_below) (simp add: rn1)
  have F1: "r < n \<Longrightarrow> sh (cell c r) = sheet st3 (cell c r)" for c r
    using F0 [of r c] by (simp add: n1_def totals_row_simps r3 n)
  have F2: "r < g + 3 \<Longrightarrow> sh (cell c r) = sheet h2 (cell c r)" for c r
    using F1 [of r c] by (simp add: st3(6) rh2 n)
  have F3: "r < g + 2 \<Longrightarrow> sh (cell c r) = sheet g1 (cell c r)" for c r
    using F2 [of r c] by (simp add: h2_def header_row_simps rg1)
  have F4: "r < g \<Longrightarrow> sh (cell c r) = sheet st2 (cell c r)" for c r
    using F3 [of r c] by (simp add: g1_def totals_row_simps r2 g)
  have F5: "r < 5 + length os \<Longrightarrow> sh (cell c r) = sheet h1 (cell c r)" for c r
    using F4 [of r c] by (simp add: st2(6) rh1 g)
  have F6: "r < 4 + length os \<Longrightarrow> sh (cell c r) = sheet st1 (cell c r)" for c r
    using F5 [of r c] by (simp add: h1_def header_row_simps r1)
  have P1: "sh (cell c (2 + k)) = Some (row_text c balances (os ! k))"
    if "k < length os \<and> c \<in> set ''ABCD''" for k c
    using that F6 [of "2 + k" c] by (simp add: st1(6) r0)
  have P2: "sh (cell CHR ''A'' (4 + length os)) = Some ''Grants''"
    using F5 [of "4 + length os" "CHR ''A''"] by (simp add: h1_def header_row_simps r1)
  have P3: "sh (cell c (5 + length os + k)) = Some (row_text c balances (gs ! k))"
    if "k < length gs \<and> c \<in> set ''ABCD''" for k c
    using that F4 [of "5 + length os + k" c] by (simp add: st2(6) rh1 g)
  have G: "sh (cell c g) = sheet g1 (cell c g)" for c
    using F3 [of g c] by simp
  have rg: "g = row st2 + 2" by (simp add: r2 g)
  have rn: "n = row st3 + 2" by (simp add: r3 n)
  have P4: "sh (cell CHR ''A'' g) = Some ''Gross Total''"
    unfolding G g1_def by (simp add: totals_row_simps rg)
  have P5: "sh (cell c g) = Some (formatAmount (sum_in c balances (os @ gs)))"
    if "c \<in> set ''BCD''" for c
    using that unfolding G g1_def by (auto simp: totals_row_simps rg tot2)
  have P6: "sh (cell CHR ''A'' (g + 2)) = Some ''Taxes''"
    using F2 [of "g + 2" "CHR ''A''"] by (simp add: h2_def header_row_simps rg1)
  have P7: "sh (cell c (g + 3 + k)) = Some (row_text c balances (ts ! k))"
    if "k < length ts \<and> c \<in> set ''ABCD''" for k c
    using that F1 [of "g + 3 + k" c] by (simp add: st3(6) rh2 n)
  have N: "sh (cell c n) = sheet n1 (cell c n)" for c
    using F0 [of n c] by simp
  have P8: "sh (cell CHR ''A'' n) = Some ''Net Total''"
    unfolding N n1_def by (simp add: totals_row_simps rn)
  have P9: "sh (cell c n) = Some (formatAmount (sum_in c balances (os @ gs @ ts)))"
    if "c \<in> set ''BCD''" for c
    using that unfolding N n1_def by (auto simp: totals_row_simps rn tot3)
  show ?thesis
    unfolding os_def [symmetric] gs_def [symmetric] ts_def [symmetric] g_def [symmetric]
      n_def [symmetric]
    using w P1 P2 P3 P4 P5 P6 P7 P8 P9 by (intro exI [of _ sh] conjI allI impI)
qed

lemma sum_list_filter_times:
  "sum_list (map f (filter P xs)) = sum_list (map (\<lambda>x. (if P x then 1 else 0) * f x) xs)"
  for f :: "'a \<Rightarrow> int"
  by (induction xs) simp_all

lemma sum_in_categories:
  "sum_in c balances (ordinary_events taxNames grantNames eventNames @
                      grant_events grantNames eventNames) =
     sum_list (map (\<lambda>x. times_in_gross taxNames grantNames x * balance_in c balances x) eventNames)"
  "sum_in c balances (ordinary_events taxNames grantNames eventNames @
                      grant_events grantNames eventNames @ tax_events taxNames eventNames) =
     sum_list (map (\<lambda>x. times_listed taxNames grantNames x * balance_in c balances x) eventNames)"
  by (simp_all add: sum_in_def ordinary_events_def grant_events_def tax_events_def
        sum_list_filter_times times_in_gross_def times_listed_def distrib_right
        sum_list_addf)

lemma sample_balances_values:
  "sample_balances ''Gala'' = Some (calculateEvent ''Gala'' sample_ledger)"
  "sample_balances ''Trip'' = Some (calculateEvent ''Trip'' sample_ledger)"
  "grossBalance (caixaGross (calculateEvent ''Gala'' sample_ledger)) = - 1300"
  "grossBalance (paypalGross (calculateEvent ''Gala'' sample_ledger)) = 300"
  "totalGrossBalance (calculateEvent ''Gala'' sample_ledger) = - 1000"
  "grossBalance (caixaGross (calculateEvent ''Trip'' sample_ledger)) = 0"
  "grossBalance (paypalGross (calculateEvent ''Trip'' sample_ledger)) = - 250"
  "totalGrossBalance (calculateEvent ''Trip'' sample_ledger) = - 250"
  by (simp_all add: sample_balances_def calculateBalances_def calculateEvent_fields
        calulcateGross_fields sample_ledger_def sample_tx_def)

text \<open>
  Claim C8. When every event name has its balances, \<open>writeEvents\<close> returns a sheet. The
  ordinary events, those in neither name list, fill the rows from row 2 on; after the
  label Grants come the rows of the events of the grant list; two rows below them is the
  row labelled Gross Total, whose columns B, C and D show the sums of the CAIXA, PAYPAL
  and total gross balances over the ordinary events and the grants, with nothing added
  by the tax loop yet. After the label Taxes come the rows of the events of the tax list,
  and two rows below them the row labelled Net Total shows the sums over the rows of all
  three sections.
\<close>

theorem writeEvents_checkpoints:
  assumes "set eventNames \<subseteq> dom balances"
  shows "\<exists>sh. writeEvents eventNames balances sheet0 taxNames grantNames
                initialBank finalBank initialPaypal finalPaypal = Inr sh
     \<and> (\<forall>k c. k < length (ordinary_events taxNames grantNames eventNames) \<and> c \<in> set ''ABCD'' \<longrightarrow>
           sh (cell c (2 + k)) =
             Some (row_text c balances (ordinary_events taxNames grantNames eventNames ! k)))
     \<and> sh (cell CHR ''A'' (4 + length (ordinary_events taxNames grantNames eventNames))) =
           Some ''Grants''
     \<and> (\<forall>k c. k < length (grant_events grantNames eventNames) \<and> c \<in> set ''ABCD'' \<longrightarrow>
           sh (cell c (5 + length (ordinary_events taxNames grantNames eventNames) + k)) =
             Some (row_text c balances (grant_events grantNames eventNames ! k)))
     \<and> sh (cell CHR ''A'' (gross_total_row taxNames grantNames eventNames)) = Some ''Gross Total''
     \<and> (\<forall>c. c \<in> set ''BCD'' \<longrightarrow>
           sh (cell c (gross_total_row taxNames grantNames eventNames)) =
             Some (formatAmount (sum_in c balances
               (ordinary_events taxNames grantNames eventNames @
                grant_events grantNames eventNames))))
     \<and> sh (cell CHR ''A'' (gross_total_row taxNames grantNames eventNames + 2)) = Some ''Taxes''
     \<and> (\<forall>k c. k < length (tax_events taxNames eventNames) \<and> c \<in> set ''ABCD'' \<longrightarrow>
           sh (cell c (gross_total_row taxNames grantNames eventNames + 3 + k)) =
             Some (row_text c balances (tax_events taxNames eventNames ! k)))
     \<and> sh (cell CHR ''A'' (net_total_row taxNames grantNames eventNames)) = Some ''Net Total''
     \<and> (\<forall>c. c \<in> set ''BCD'' \<longrightarrow>
           sh (cell c (net_total_row taxNames grantNames eventNames)) =
             Some (formatAmount (sum_in c balances
               (ordinary_events taxNames grantNames eventNames @
                grant_events grantNames eventNames @
                tax_events taxNames eventNames))))"
  using assms by (rule writeEvents_rows)

theorem writeEvents_checkpoints_witness:
  "set [''Gala'', ''Trip''] \<subseteq> dom sample_balances
   \<and> written (writeEvents [''Gala'', ''Trip''] sample_balances Map.empty [''Trip''] [] 0 0 0 0)
       ''A2'' = Some ''Gala''
   \<and> written (writeEvents [''Gala'', ''Trip''] sample_balances Map.empty [''Trip''] [] 0 0 0 0)
       ''A8'' = Some ''Gross Total''
   \<and> written (writeEvents [''Gala'', ''Trip''] sample_balances Map.empty [''Trip''] [] 0 0 0 0)
       ''D8'' = Some (''-10,00 '' @ euro)
   \<and> written (writeEvents [''Gala'', ''Trip''] sample_balances Map.empty [''Trip''] [] 0 0 0 0)
       ''A11'' = Some ''Trip''
   \<and> written (writeEvents [''Gala'', ''Trip''] sample_balances Map.empty [''Trip''] [] 0 0 0 0)
       ''A14'' = Some ''Net Total''
   \<and> written (writeEvents [''Gala'', ''Trip''] sample_balances Map.empty [''Trip''] [] 0 0 0 0)
       ''D14'' = Some (''-12,50 '' @ euro)"
proof -
  have d: "set [''Gala'', ''Trip''] \<subseteq> dom sample_balances"
    by (simp add: sample_balances_values(1,2) dom_def)
  have l: "ordinary_events [''Trip''] [] [''Gala'', ''Trip''] = [''Gala'']"
    "grant_events [] [''Gala'', ''Trip''] = []"
    "tax_events [''Trip''] [''Gala'', ''Trip''] = [''Trip'']"
    by (simp_all add: ordinary_events_def grant_events_def tax_events_def)
  have r: "gross_total_row [''Trip''] [] [''Gala'', ''Trip''] = 8"
    "net_total_row [''Trip''] [] [''Gala'', ''Trip''] = 14"
    by (simp_all add: gross_total_row_def net_total_row_def l)
  have k: "cell CHR ''A'' 2 = ''A2''" "cell CHR ''A'' 8 = ''A8''" "cell CHR ''D'' 8 = ''D8''"
    "cell CHR ''A'' 11 = ''A11''" "cell CHR ''A'' 14 = ''A14''" "cell CHR ''D'' 14 = ''D14''"
    by (simp_all add: cell_def py_str_def)
  from writeEvents_checkpoints [OF d, of Map.empty "[''Trip'']" "[]" 0 0 0 0]
  obtain sh where sh:
    "writeEvents [''Gala'', ''Trip''] sample_balances Map.empty [''Trip''] [] 0 0 0 0 = Inr sh"
    "sh (cell CHR ''A'' (2 + 0)) = Some (row_text CHR ''A'' sample_balances ''Gala'')"
    "sh (cell CHR ''A'' 8) = Some ''Gross Total''"
    "sh (cell CHR ''D'' 8) = Some (formatAmount (sum_in CHR ''D'' sample_balances [''Gala'']))"
    "sh (cell CHR ''A'' (8 + 3 + 0)) = Some (row_text CHR ''A'' sample_balances ''Trip'')"
    "sh (cell CHR ''A'' 14) = Some ''Net Total''"
    "sh (cell CHR ''D'' 14) =
       Some (formatAmount (sum_in CHR ''D'' sample_balances [''Gala'', ''Trip'']))"
    unfolding l r by force
  have s: "sum_in CHR ''D'' sample_balances [''Gala''] = - 1000"
    "sum_in CHR ''D'' sample_balances [''Gala'', ''Trip''] = - 1250"
    by (simp_all add: sum_in_def balance_in_def sample_balances_values)
  have f: "formatAmount (- 1000) = ''-10,00 '' @ euro" "formatAmount (- 1250) = ''-12,50 '' @ euro"
    by (simp_all add: formatAmount_def py_str_def Let_def)
  show ?thesis
    using sh d by (simp add: written_def k s f row_text_def sample_balances_values)
qed

text \<open>
  Claim C9, as amended. The grant loop and the tax loop test the event name each on its
  own, so an event name that is in both lists has a row in the grant section and a row in
  the tax section. Its figures are in the running totals once at the gross total and
  twice at the net total: the totals shown are the sums over the event names of the
  figures times the number of loops that took the name.
\<close>

theorem writeEvents_both_sets:
  assumes "set eventNames \<subseteq> dom balances"
    and "e \<in> set eventNames" and "e \<in> set grantNames" and "e \<in> set taxNames"
  shows "\<exists>sh. writeEvents eventNames balances sheet0 taxNames grantNames
                initialBank finalBank initialPaypal finalPaypal = Inr sh
     \<and> (\<exists>k. k < length (grant_events grantNames eventNames)
            \<and> sh (cell CHR ''A''
                 (5 + length (ordinary_events taxNames grantNames eventNames) + k)) = Some e)
     \<and> (\<exists>k. k < length (tax_events taxNames eventNames)
            \<and> sh (cell CHR ''A'' (gross_total_row taxNames grantNames eventNames + 3 + k)) = Some e)
     \<and> (\<forall>c. c \<in> set ''BCD'' \<longrightarrow>
           sh (cell c (gross_total_row taxNames grantNames eventNames)) =
             Some (formatAmount (sum_list
               (map (\<lambda>x. times_in_gross taxNames grantNames x * balance_in c balances x)
                  eventNames))))
     \<and> (\<forall>c. c \<in> set ''BCD'' \<longrightarrow>
           sh (cell c (net_total_row taxNames grantNames eventNames)) =
             Some (formatAmount (sum_list
               (map (\<lambda>x. times_listed taxNames grantNames x * balance_in c balances x)
                  eventNames))))
     \<and> times_in_gross taxNames grantNames e = 1
     \<and> times_listed taxNames grantNames e = 2"
proof -
  define os where "os = ordinary_events taxNames grantNames eventNames"
  define gs where "gs = grant_events grantNames eventNames"
  define ts where "ts = tax_events taxNames eventNames"
  define g where "g = gross_total_row taxNames grantNames eventNames"
  define n where "n = net_total_row taxNames grantNames eventNames"
  from writeEvents_rows [OF assms(1), of sheet0 taxNames grantNames
      initialBank finalBank initialPaypal finalPaypal]
  obtain sh where w: "writeEvents eventNames balances sheet0 taxNames grantNames
                initialBank finalBank initialPaypal finalPaypal = Inr sh"
    and G: "\<forall>k c. k < length gs \<and> c \<in> set ''ABCD'' \<longrightarrow>
              sh (cell c (5 + length os + k)) = Some (row_text c balances (gs ! k))"
    and T: "\<forall>k c. k < length ts \<and> c \<in> set ''ABCD'' \<longrightarrow>
              sh (cell c (g + 3 + k)) = Some (row_text c balances (ts ! k))"
    and GT: "\<forall>c. c \<in> set ''BCD'' \<longrightarrow>
              sh (cell c g) = Some (formatAmount (sum_in c balances (os @ gs)))"
    and NT: "\<forall>c. c \<in> set ''BCD'' \<longrightarrow>
              sh (cell c n) = Some (formatAmount (sum_in c balances (os @ gs @ ts)))"
    unfolding os_def gs_def ts_def g_def n_def by blast
  have "e \<in> set gs" using assms(2,3) by (simp add: gs_def grant_events_def)
  then obtain i where i: "i < length gs" "gs ! i = e" by (auto simp: in_set_conv_nth)
  have "e \<in> set ts" using assms(2,4) by (simp add: ts_def tax_events_def)
  then obtain j where j: "j < length ts" "ts ! j = e" by (auto simp: in_set_conv_nth)
  have a: "row_text CHR ''A'' balances e = e" by (simp add: row_text_def)
  have P1: "\<exists>k. k < length gs \<and> sh (cell CHR ''A'' (5 + length os + k)) = Some e"
    using G [rule_format, of i "CHR ''A''"] i a by (intro exI [of _ i]) simp
  have P2: "\<exists>k. k < length ts \<and> sh (cell CHR ''A'' (g + 3 + k)) = Some e"
    using T [rule_format, of j "CHR ''A''"] j a by (intro exI [of _ j]) simp
  have P3: "\<forall>c. c \<in> set ''BCD'' \<longrightarrow> sh (cell c g) =
      Some (formatAmount (sum_list
        (map (\<lambda>x. times_in_gross taxNames grantNames x * balance_in c balances x) eventNames)))"
    using GT unfolding os_def gs_def sum_in_categories(1) .
  have P4: "\<forall>c. c \<in> set ''BCD'' \<longrightarrow> sh (cell c n) =
      Some (formatAmount (sum_list
        (map (\<lambda>x. times_listed taxNames grantNames x * balance_in c balances x) eventNames)))"
    using NT unfolding os_def gs_def ts_def sum_in_categories(2) .
  have P5: "times_in_gross taxNames grantNames e = 1" "times_listed taxNames grantNames e = 2"
    using assms(3,4) by (simp_all add: times_in_gross_def times_listed_def)
  show ?thesis
    unfolding os_def [symmetric] gs_def [symmetric] ts_def [symmetric] g_def [symmetric]
      n_def [symmetric]
    using w P1 P2 P3 P4 P5 by (intro exI [of _ sh] conjI)
qed

theorem writeEvents_both_sets_witness:
  "set [''Gala'', ''Trip''] \<subseteq> dom sample_balances
   \<and> ''Trip'' \<in> set [''Gala'', ''Trip''] \<and> ''Trip'' \<in> set [''Trip'']
   \<and> times_listed [''Trip''] [''Trip''] ''Trip'' = 2
   \<and> times_listed [''Trip''] [''Trip''] ''Gala'' = 1
   \<and> written (writeEvents [''Gala'', ''Trip''] sample_balances Map.empty [''Trip''] [''Trip''] 1 2 3 4)
       ''D15'' = Some (''-15,00 '' @ euro)"
proof -
  have d: "set [''Gala'', ''Trip''] \<subseteq> dom sample_balances"
    by (simp add: sample_balances_values(1,2) dom_def)
  have m: "''Trip'' \<in> set [''Gala'', ''Trip'']" "''Trip'' \<in> set [''Trip'']" by simp_all
  have r: "net_total_row [''Trip''] [''Trip''] [''Gala'', ''Trip''] = 15"
    by (simp add: gross_total_row_def net_total_row_def ordinary_events_def grant_events_def
          tax_events_def)
  have k: "cell CHR ''D'' 15 = ''D15''" by (simp add: cell_def py_str_def)
  have t: "times_listed [''Trip''] [''Trip''] ''Trip'' = 2"
    "times_listed [''Trip''] [''Trip''] ''Gala'' = 1"
    by (simp_all add: times_listed_def)
  from writeEvents_both_sets [OF d m(1) m(2) m(2), of Map.empty 1 2 3 4]
  obtain sh where sh:
    "writeEvents [''Gala'', ''Trip''] sample_balances Map.empty [''Trip''] [''Trip''] 1 2 3 4 = Inr sh"
    "sh (cell CHR ''D'' 15) = Some (formatAmount (sum_list
        (map (\<lambda>x. times_listed [''Trip''] [''Trip''] x * balance_in CHR ''D'' sample_balances x)
           [''Gala'', ''Trip''])))"
    unfolding r by force
  have f: "formatAmount (- 1500) = ''-15,00 '' @ euro"
    by (simp add: formatAmount_def py_str_def Let_def)
  show ?thesis
    using sh d by (simp add: written_def k t f balance_in_def sample_balances_values)
qed

text \<open>
  Claim C9 as stated fails: with Trip in both lists, Trip is written in row 6 of the grant
  section and again in row 12 of the tax section, the gross total is -12,50 and the net
  total -15,00, the balance of Trip (-2,50) taken twice.
\<close>

theorem writeEvents_both_sets_counterexample:
  "written (writeEvents [''Gala'', ''Trip''] sample_balances Map.empty [''Trip''] [''Trip''] 0 0 0 0)
     ''A6'' = Some ''Trip''
   \<and> written (writeEvents [''Gala'', ''Trip''] sample_balances Map.empty [''Trip''] [''Trip''] 0 0 0 0)
     ''A12'' = Some ''Trip''
   \<and> written (writeEvents [''Gala'', ''Trip''] sample_balances Map.empty [''Trip''] [''Trip''] 0 0 0 0)
     ''D9'' = Some (''-12,50 '' @ euro)
   \<and> written (writeEvents [''Gala'', ''Trip''] sample_balances Map.empty [''Trip''] [''Trip''] 0 0 0 0)
     ''D15'' = Some (''-15,00 '' @ euro)
   \<and> totalGrossBalance (calculateEvent ''Gala'' sample_ledger)
       + totalGrossBalance (calculateEvent ''Trip'' sample_ledger) = - 1250"
proof -
  have d: "set [''Gala'', ''Trip''] \<subseteq> dom sample_balances"
    by (simp add: sample_balances_values(1,2) dom_def)
  have l: "ordinary_events [''Trip''] [''Trip''] [''Gala'', ''Trip''] = [''Gala'']"
    "grant_events [''Trip''] [''Gala'', ''Trip''] = [''Trip'']"
    "tax_events [''Trip''] [''Gala'', ''Trip''] = [''Trip'']"
    by (simp_all add: ordinary_events_def grant_events_def tax_events_def)
  have r: "gross_total_row [''Trip''] [''Trip''] [''Gala'', ''Trip''] = 9"
    "net_total_row [''Trip''] [''Trip''] [''Gala'', ''Trip''] = 15"
    by (simp_all add: gross_total_row_def net_total_row_def l)
  have k: "cell CHR ''A'' 6 = ''A6''" "cell CHR ''A'' 12 = ''A12''" "cell CHR ''D'' 9 = ''D9''"
    "cell CHR ''D'' 15 = ''D15''"
    by (simp_all add: cell_def py_str_def)
  from writeEvents_rows [OF d, of Map.empty "[''Trip'']" "[''Trip'']" 0 0 0 0]
  obtain sh where sh:
    "writeEvents [''Gala'', ''Trip''] sample_balances Map.empty [''Trip''] [''Trip''] 0 0 0 0 = Inr sh"
    "sh (cell CHR ''A'' (5 + 1 + 0)) = Some (row_text CHR ''A'' sample_balances ''Trip'')"
    "sh (cell CHR ''A'' (9 + 3 + 0)) = Some (row_text CHR ''A'' sample_balances ''Trip'')"
    "sh (cell CHR ''D'' 9) =
       Some (formatAmount (sum_in CHR ''D'' sample_balances [''Gala'', ''Trip'']))"
    "sh (cell CHR ''D'' 15) =
       Some (formatAmount (sum_in CHR ''D'' sample_balances [''Gala'', ''Trip'', ''Trip'']))"
    unfolding l r by force
  have s: "sum_in CHR ''D'' sample_balances [''Gala'', ''Trip''] = - 1250"
    "sum_in CHR ''D'' sample_balances [''Gala'', ''Trip'', ''Trip''] = - 1500"
    by (simp_all add: sum_in_def balance_in_def sample_balances_values)
  have f: "formatAmount (- 1250) = ''-12,50 '' @ euro" "formatAmount (- 1500) = ''-15,00 '' @ euro"
    by (simp_all add: formatAmount_def py_str_def Let_def)
  show ?thesis
    using sh by (simp add: written_def k s f row_text_def sample_balances_values)
qed

end
